theory Spec2Isabelle
  imports Complex_Main
begin

section \<open>Numbers and exceptions of the notebook\<close>

text \<open>
  The notebook \<open>carbon_savings.ipynb\<close> computes with Python and numpy floats (IEEE
  binary64). A finite float is the real number it stands for; the non-finite values that
  pandas and numpy produce instead of raising, \<open>inf\<close>, \<open>-inf\<close> and \<open>nan\<close>, are values
  of their own, because the notebook's column divisions never raise.

  Two kinds of float results are kept apart. The buffers of \<open>process_csv\<close>
  (\<open>math.ceil\<close> of a product and of a quotient) and the savings of \<open>calculate_steps\<close>
  (\<open>int(round(...))\<close> of a quotient) are integers made from a float, and the rounding
  error of a single operation can change them. These floats are computed as the code
  computes them: every operation is rounded to the nearest double, ties to even (\<open>fl\<close>
  and the operations \<open>fl_add\<close>, \<open>fl_mul\<close>, \<open>fl_div\<close> below). Every other float
  (carbon totals, percentages, averages, the datacenter fraction) is modelled by the
  exact value of its formula, which the double of the code equals up to rounding error.
\<close>

datatype np_float = Fin real | PInf | NInf | NaN

text \<open>
  The exceptions that the modelled cells can raise. \<open>Not_modelled\<close> is not an exception
  of Python: it marks an input on which pandas leaves the int64 columns that this model
  describes (a size or a buffer outside the int64 range).
\<close>

datatype py_error =
  ZeroDivisionError | ValueError | OverflowError | TypeError | LinAlgError | Not_modelled

subsection \<open>Exact operations on reported floats\<close>

text \<open>Addition of two floats: \<open>nan\<close> is absorbing, \<open>inf + -inf\<close> is \<open>nan\<close>.\<close>

fun np_add :: "np_float \<Rightarrow> np_float \<Rightarrow> np_float" where
  "np_add NaN _ = NaN"
| "np_add _ NaN = NaN"
| "np_add PInf NInf = NaN"
| "np_add NInf PInf = NaN"
| "np_add PInf _ = PInf"
| "np_add _ PInf = PInf"
| "np_add NInf _ = NInf"
| "np_add _ NInf = NInf"
| "np_add (Fin a) (Fin b) = Fin (a + b)"

text \<open>The sum of a column, starting from \<open>0.0\<close>.\<close>

fun np_sum :: "np_float list \<Rightarrow> np_float" where
  "np_sum [] = Fin 0"
| "np_sum (x # xs) = np_add x (np_sum xs)"

text \<open>A float times a finite number \<open>w\<close>: \<open>inf * 0\<close> is \<open>nan\<close>.\<close>

fun np_scale :: "np_float \<Rightarrow> real \<Rightarrow> np_float" where
  "np_scale (Fin a) w = Fin (a * w)"
| "np_scale NaN w = NaN"
| "np_scale PInf w = (if w = 0 then NaN else if 0 < w then PInf else NInf)"
| "np_scale NInf w = (if w = 0 then NaN else if 0 < w then NInf else PInf)"

text \<open>
  numpy's true division of two finite floats \<open>x / y\<close>. It never raises: a zero divisor
  gives \<open>nan\<close> for \<open>0 / 0\<close> and an infinity otherwise, whose sign is the sign of \<open>x\<close>
  flipped by the sign bit of the zero (\<open>neg_zero\<close> is True for \<open>-0.0\<close>).
\<close>

definition np_true_divide :: "real \<Rightarrow> real \<Rightarrow> bool \<Rightarrow> np_float" where
  "np_true_divide x y neg_zero =
     (if y \<noteq> 0 then Fin (x / y)
      else if x = 0 then NaN
      else if (x < 0) \<noteq> neg_zero then NInf else PInf)"

text \<open>A float divided by a finite non-zero number \<open>d\<close>.\<close>

fun np_div_real :: "np_float \<Rightarrow> real \<Rightarrow> np_float" where
  "np_div_real (Fin a) d = np_true_divide a d False"
| "np_div_real NaN d = NaN"
| "np_div_real PInf d = (if d < 0 then NInf else PInf)"
| "np_div_real NInf d = (if d < 0 then PInf else NInf)"

subsection \<open>From a float to an integer\<close>

text \<open>
  \<open>math.ceil\<close> on a float: \<open>nan\<close> raises ValueError (cannot convert float NaN to
  integer), an infinity raises OverflowError.
\<close>

fun math_ceil :: "np_float \<Rightarrow> py_error + int" where
  "math_ceil (Fin x) = Inr \<lceil>x\<rceil>"
| "math_ceil NaN = Inl ValueError"
| "math_ceil PInf = Inl OverflowError"
| "math_ceil NInf = Inl OverflowError"

text \<open>
  \<open>round(x, 0)\<close> on a float rounds to the nearest whole number, a tie going to the even
  neighbour; \<open>int(...)\<close> of the result is exact.
\<close>

definition py_round :: "real \<Rightarrow> int" where
  "py_round x =
     (let f = \<lfloor>x\<rfloor>; d = x - of_int f
      in if d < 1 / 2 then f
         else if 1 / 2 < d then f + 1
         else if even f then f else f + 1)"

text \<open>
  \<open>int(round(x, 0))\<close> on a float that may be non-finite: \<open>int(nan)\<close> raises ValueError,
  \<open>int(inf)\<close> raises OverflowError.
\<close>

fun int_round :: "np_float \<Rightarrow> py_error + int" where
  "int_round (Fin x) = Inr (py_round x)"
| "int_round NaN = Inl ValueError"
| "int_round PInf = Inl OverflowError"
| "int_round NInf = Inl OverflowError"

subsection \<open>Double-precision arithmetic\<close>

text \<open>Powers of two with an integer exponent.\<close>

definition pow2 :: "int \<Rightarrow> real" where
  "pow2 k = (if 0 \<le> k then 2 ^ nat k else 1 / 2 ^ nat (- k))"

text \<open>The binary logarithm of a positive integer, rounded down.\<close>

function ilog2 :: "int \<Rightarrow> int" where
  "ilog2 n = (if n \<le> 1 then 0 else 1 + ilog2 (n div 2))"
  by pat_completeness auto
termination
  by (relation "measure nat") auto

declare ilog2.simps [simp del]

text \<open>
  The binary exponent of a positive real \<open>x\<close>: the \<open>e\<close> with \<open>2^e \<le> x < 2^(e+1)\<close>, from
  the integer part of \<open>x\<close> when \<open>x \<ge> 1\<close> and from the integer part of \<open>1 / x\<close> otherwise.
\<close>

definition expo :: "real \<Rightarrow> int" where
  "expo x = (if 1 \<le> x then ilog2 \<lfloor>x\<rfloor> else - (1 + ilog2 (\<lceil>1 / x\<rceil> - 1)))"

text \<open>
  \<open>fl x\<close> is the double that an operation with the exact result \<open>x\<close> returns: \<open>x\<close>
  rounded to the nearest multiple of \<open>2^(e-52)\<close>, a tie going to the even multiple,
  where \<open>e\<close> is the exponent of \<open>x\<close> and at least -1022 (below, doubles are subnormal and
  their spacing is \<open>2^-1074\<close>); a result of size \<open>2^1024\<close> or more overflows to an
  infinity. It is also the double that Python reads from a decimal literal \<open>x\<close>. The
  sign of a zero is not kept: \<open>Fin 0\<close> stands for \<open>0.0\<close> and \<open>-0.0\<close>.
\<close>

definition fl :: "real \<Rightarrow> np_float" where
  "fl x =
     (if x = 0 then Fin 0
      else
        (let e = max (expo \<bar>x\<bar>) (- 1022);
             q = pow2 (e - 52);
             r = of_int (py_round (x / q)) * q
         in if pow2 1024 \<le> \<bar>r\<bar> then (if 0 < x then PInf else NInf) else Fin r))"

text \<open>The sign of a float that is not \<open>nan\<close>, and the infinity of a sign.\<close>

fun np_negative :: "np_float \<Rightarrow> bool" where
  "np_negative (Fin a) = (a < 0)"
| "np_negative NInf = True"
| "np_negative PInf = False"
| "np_negative NaN = False"

definition inf_of :: "bool \<Rightarrow> np_float" where
  "inf_of negative = (if negative then NInf else PInf)"

text \<open>
  The sum, the product and the quotient of two doubles, as numpy computes them: \<open>nan\<close>
  is absorbing, \<open>inf - inf\<close>, \<open>inf * 0\<close>, \<open>inf / inf\<close> and \<open>0 / 0\<close> are \<open>nan\<close>, and a
  finite exact result is rounded by \<open>fl\<close>. A non-zero number divided by zero is an
  infinity; its sign here is the sign of the number (the zero counted as \<open>0.0\<close>).
\<close>

fun fl_add :: "np_float \<Rightarrow> np_float \<Rightarrow> np_float" where
  "fl_add (Fin a) (Fin b) = fl (a + b)"
| "fl_add NaN _ = NaN"
| "fl_add _ NaN = NaN"
| "fl_add PInf NInf = NaN"
| "fl_add NInf PInf = NaN"
| "fl_add PInf _ = PInf"
| "fl_add _ PInf = PInf"
| "fl_add NInf _ = NInf"
| "fl_add _ NInf = NInf"

fun np_uminus :: "np_float \<Rightarrow> np_float" where
  "np_uminus (Fin a) = Fin (- a)"
| "np_uminus PInf = NInf"
| "np_uminus NInf = PInf"
| "np_uminus NaN = NaN"

definition fl_sub :: "np_float \<Rightarrow> np_float \<Rightarrow> np_float" where
  "fl_sub x y = fl_add x (np_uminus y)"

fun fl_mul :: "np_float \<Rightarrow> np_float \<Rightarrow> np_float" where
  "fl_mul (Fin a) (Fin b) = fl (a * b)"
| "fl_mul NaN _ = NaN"
| "fl_mul _ NaN = NaN"
| "fl_mul x y =
     (if x = Fin 0 \<or> y = Fin 0 then NaN else inf_of (np_negative x \<noteq> np_negative y))"

fun fl_div :: "np_float \<Rightarrow> np_float \<Rightarrow> np_float" where
  "fl_div (Fin a) (Fin b) =
     (if b \<noteq> 0 then fl (a / b) else if a = 0 then NaN else inf_of (a < 0))"
| "fl_div NaN _ = NaN"
| "fl_div _ NaN = NaN"
| "fl_div (Fin a) _ = Fin 0"
| "fl_div x (Fin b) = inf_of (np_negative x \<noteq> (b < 0))"
| "fl_div _ _ = NaN"

subsection \<open>int64 columns\<close>

text \<open>
  The integer columns of the data frame are int64: a sum of two of them wraps around.
  Multiplied by a float, an int64 is first converted to the nearest double.
\<close>

definition in_int64 :: "int \<Rightarrow> bool" where
  "in_int64 k \<longleftrightarrow> - (2 ^ 63) \<le> k \<and> k < 2 ^ 63"

definition wrap64 :: "int \<Rightarrow> int" where
  "wrap64 k = (k + 2 ^ 63) mod 2 ^ 64 - 2 ^ 63"

definition int64_to_double :: "int \<Rightarrow> np_float" where
  "int64_to_double k = fl (of_int k)"

subsection \<open>The two averages\<close>

text \<open>
  \<open>Series.mean()\<close> of pandas skips \<open>nan\<close> entries (\<open>skipna=True\<close>) and is \<open>nan\<close> when
  nothing is left; infinities are not skipped.
\<close>

definition series_mean :: "np_float list \<Rightarrow> np_float" where
  "series_mean xs =
     (let ys = filter (\<lambda>x. x \<noteq> NaN) xs
      in if ys = [] then NaN else np_div_real (np_sum ys) (real (length ys)))"

text \<open>
  \<open>np.average(a, weights=w)\<close>: raises ZeroDivisionError ("Weights sum to zero, can't be
  normalized") when the weights sum to zero, and is \<open>sum(a * w) / sum(w)\<close> otherwise,
  with no \<open>nan\<close> skipped.
\<close>

definition np_average :: "np_float list \<Rightarrow> int list \<Rightarrow> py_error + np_float" where
  "np_average a w =
     (let scl = real_of_int (sum_list w)
      in if scl = 0 then Inl ZeroDivisionError
         else Inr (np_div_real (np_sum (map2 (\<lambda>x k. np_scale x (real_of_int k)) a w)) scl))"

section \<open>Cluster-level savings: \<open>process_csv\<close>\<close>

text \<open>
  The classes \<open>ServerCarbon\<close> and \<open>ServerMaintenance\<close> are imported by the notebook from
  modules outside it. \<open>process_csv\<close> reads three numbers from them for each of the two
  designs; they are the fields of \<open>server_model\<close>: \<open>get_per_server_carbon()\<close>,
  \<open>get_AFRs()\<close> and \<open>get_vcores()\<close>, all floats. (Were \<open>get_vcores()\<close> a Python int, the
  products \<open>NewClusterSize * vcores\<close> and their sum would be int64; they are the same
  numbers as the doubles of this model as long as they stay below \<open>2^53\<close>.)
\<close>

record server_model =
  per_server_carbon :: real
  AFRs :: real
  vcores :: real

text \<open>One row of the cluster CSV file: three int64 columns.\<close>

record cluster_row =
  OriginalClusterSize :: int
  NewClusterSize_Baseline :: int
  NewClusterSize_GreenSKU :: int

definition sizes_int64 :: "cluster_row \<Rightarrow> bool" where
  "sizes_int64 r \<longleftrightarrow>
     in_int64 (OriginalClusterSize r) \<and> in_int64 (NewClusterSize_Baseline r)
       \<and> in_int64 (NewClusterSize_GreenSKU r)"

text \<open>The row with the columns that \<open>process_csv\<close> adds to the data frame.\<close>

record cluster_out = cluster_row +
  num_buffer :: np_float
  num_og_buffer :: int
  start_og_carbon :: real
  total_num_buffer :: int
  total_carbon :: real
  perc_saved_carbon :: np_float

text \<open>
  The float column \<open>num_buffer = OriginalClusterSize * buffer\<close>, and the float column
  \<open>total_num_buffer = (NewClusterSize_Baseline * vcores(og) + NewClusterSize_GreenSKU *
  vcores(new)) * buffer / vcores(og)\<close> before its ceiling is taken, each operation rounded
  as in the code.
\<close>

definition num_buffer_float :: "real \<Rightarrow> cluster_row \<Rightarrow> np_float" where
  "num_buffer_float buffer r = fl_mul (int64_to_double (OriginalClusterSize r)) (fl buffer)"

definition total_num_buffer_float ::
  "server_model \<Rightarrow> server_model \<Rightarrow> real \<Rightarrow> cluster_row \<Rightarrow> np_float" where
  "total_num_buffer_float og_sc new_sc buffer r =
     fl_div
       (fl_mul
          (fl_add
             (fl_mul (int64_to_double (NewClusterSize_Baseline r)) (fl (vcores og_sc)))
             (fl_mul (int64_to_double (NewClusterSize_GreenSKU r)) (fl (vcores new_sc))))
          (fl buffer))
       (fl (vcores og_sc))"

text \<open>
  \<open>column.apply(lambda x: math.ceil(x))\<close>: the ceilings in row order; the first row whose
  float is not finite raises. The result is an int64 column when every ceiling is in
  the int64 range.
\<close>

fun apply_ceil :: "np_float list \<Rightarrow> py_error + int list" where
  "apply_ceil [] = Inr []"
| "apply_ceil (x # xs) =
     (case math_ceil x of
        Inl e \<Rightarrow> Inl e
      | Inr k \<Rightarrow>
          (case apply_ceil xs of
             Inl e \<Rightarrow> Inl e
           | Inr ks \<Rightarrow> Inr (k # ks)))"

definition ceil_column :: "np_float list \<Rightarrow> py_error + int list" where
  "ceil_column xs =
     (case apply_ceil xs of
        Inl e \<Rightarrow> Inl e
      | Inr ks \<Rightarrow> if list_all in_int64 ks then Inr ks else Inl Not_modelled)"

definition num_og_buffer_column :: "real \<Rightarrow> cluster_row list \<Rightarrow> py_error + int list" where
  "num_og_buffer_column buffer csv = ceil_column (map (num_buffer_float buffer) csv)"

definition total_num_buffer_column ::
  "server_model \<Rightarrow> server_model \<Rightarrow> real \<Rightarrow> cluster_row list \<Rightarrow> py_error + int list" where
  "total_num_buffer_column og_sc new_sc buffer csv =
     ceil_column (map (total_num_buffer_float og_sc new_sc buffer) csv)"

text \<open>
  The columns of one row, given its two buffers. The two sums of server counts are sums
  of int64 columns. The sign bit of a zero \<open>start_og_carbon\<close> is the exclusive or of the
  sign bits of its three factors (a zero parameter counts as \<open>+0.0\<close>).
\<close>

definition row_columns ::
  "server_model \<Rightarrow> server_model \<Rightarrow> real \<Rightarrow> cluster_row \<Rightarrow> int \<Rightarrow> int \<Rightarrow> cluster_out" where
  "row_columns og_sc new_sc buffer r nob tnb =
     (let og_server_carbon = per_server_carbon og_sc;
          new_server_carbon = per_server_carbon new_sc;
          og_maintenance_overhead = 1 + AFRs og_sc;
          new_maintenance_overhead = 1 + AFRs new_sc;
          k = wrap64 (OriginalClusterSize r + nob);
          soc = of_int k * og_server_carbon * og_maintenance_overhead;
          soc_neg_zero = ((k < 0) \<noteq> (og_server_carbon < 0)) \<noteq> (og_maintenance_overhead < 0);
          tc = of_int (wrap64 (NewClusterSize_Baseline r + tnb)) * og_server_carbon
                 * og_maintenance_overhead
               + of_int (NewClusterSize_GreenSKU r) * new_server_carbon
                 * new_maintenance_overhead
      in \<lparr>OriginalClusterSize = OriginalClusterSize r,
          NewClusterSize_Baseline = NewClusterSize_Baseline r,
          NewClusterSize_GreenSKU = NewClusterSize_GreenSKU r,
          num_buffer = num_buffer_float buffer r,
          num_og_buffer = nob,
          start_og_carbon = soc,
          total_num_buffer = tnb,
          total_carbon = tc,
          perc_saved_carbon = np_true_divide ((soc - tc) * 100) soc soc_neg_zero\<rparr>)"

text \<open>
  \<open>process_csv\<close>, column by column as the function computes them: the ceilings of
  \<open>num_buffer\<close> for all rows, then those of \<open>total_num_buffer\<close>, then the carbon columns
  and the percentage, and one of the two averages. The weighted average is computed
  before the flag is looked at, so its ZeroDivisionError is raised whatever the flag is.
\<close>

definition process_csv ::
  "cluster_row list \<Rightarrow> server_model \<Rightarrow> server_model \<Rightarrow> real \<Rightarrow> bool
     \<Rightarrow> py_error + (cluster_out list \<times> np_float)" where
  "process_csv csv og_sc new_sc buffer weight_cluster =
     (if \<not> list_all sizes_int64 csv then Inl Not_modelled
      else
        (case num_og_buffer_column buffer csv of
           Inl e \<Rightarrow> Inl e
         | Inr nobs \<Rightarrow>
             (case total_num_buffer_column og_sc new_sc buffer csv of
                Inl e \<Rightarrow> Inl e
              | Inr tnbs \<Rightarrow>
                  (let df = map (\<lambda>(r, nob, tnb). row_columns og_sc new_sc buffer r nob tnb)
                              (zip csv (zip nobs tnbs));
                       average_saved_carbon = series_mean (map perc_saved_carbon df)
                   in case np_average (map perc_saved_carbon df) (map OriginalClusterSize df) of
                        Inl e \<Rightarrow> Inl e
                      | Inr weighted_average_saved_carbon \<Rightarrow>
                          if weight_cluster then Inr (df, weighted_average_saved_carbon)
                          else Inr (df, average_saved_carbon)))))"

section \<open>Reported cluster- and datacenter-level savings\<close>


text \<open>The four fractions that the notebook takes from the paper's carbon breakdown.\<close>

definition operational_it :: real where
  "operational_it = 868 / 1000"

definition embodied_it :: real where
  "embodied_it = 948 / 1000"

definition operational_compute_of_it :: real where
  "operational_compute_of_it = 779 / 1000"

definition embodied_compute_of_it :: real where
  "embodied_compute_of_it = 442 / 1000"

definition compute_operational :: real where
  "compute_operational = operational_it * operational_compute_of_it"

definition compute_embodied :: real where
  "compute_embodied = embodied_it * embodied_compute_of_it"

text \<open>
  \<open>cluster_dc_fraction\<close>, from the baseline server's \<open>get_rack_perc_operational()\<close> (a
  percentage; \<open>ServerCarbon\<close> is outside the notebook, so the percentage is a parameter).
\<close>

definition cluster_dc_fraction :: "real \<Rightarrow> real" where
  "cluster_dc_fraction rack_perc_operational =
     (let baseline_operational_fraction = rack_perc_operational / 100
      in compute_operational * baseline_operational_fraction
           + compute_embodied * (1 - baseline_operational_fraction))"

text \<open>
  The last cell of the section has two assignments to \<open>dc_savings\<close>: the product
  \<open>cluster_savings * cluster_dc_fraction\<close>, and \<open>int(round(dc_savings, 0))\<close>, which is
  the figure written to the report.
\<close>

definition dc_savings_product :: "int \<Rightarrow> real \<Rightarrow> real" where
  "dc_savings_product cs rack_perc_operational =
     of_int cs * cluster_dc_fraction rack_perc_operational"

definition dc_savings :: "int \<Rightarrow> real \<Rightarrow> int" where
  "dc_savings cs rack_perc_operational =
     py_round (dc_savings_product cs rack_perc_operational)"


section \<open>Average carbon intensity\<close>

text \<open>One record of the datacenter CSV file; the three numbers are finite.\<close>

record dc_record =
  Region :: string
  Renewable_pct :: real
  Avg_Renewable_Intensity :: real
  Avg_Grid_Intensity :: real

text \<open>The \<open>carbon_intensity\<close> column as first computed, in gCO2e/kWh.\<close>

definition carbon_intensity_g :: "dc_record \<Rightarrow> real" where
  "carbon_intensity_g r =
     (Renewable_pct r / 100) * Avg_Renewable_Intensity r
       + (1 - Renewable_pct r / 100) * Avg_Grid_Intensity r"

text \<open>
  \<open>calculate_average_dc_carbon_intensity\<close>: the column, the column divided by 1000, and
  \<open>np.mean\<close> of it, which on a pandas column is \<open>Series.mean()\<close>.
\<close>

definition calculate_average_dc_carbon_intensity :: "dc_record list \<Rightarrow> np_float" where
  "calculate_average_dc_carbon_intensity dc_data =
     (let col = map carbon_intensity_g dc_data;
          col_kg = map (\<lambda>c. c / 1000) col
      in series_mean (map Fin col_kg))"

section \<open>Fan-power model\<close>

text \<open>
  What a call of \<open>np.polyfit\<close> can do: raise, return the two coefficients, or hand a
  least-squares system that holds \<open>nan\<close> or \<open>inf\<close> to LAPACK. What LAPACK does with
  such a system (raise LinAlgError, or return \<open>nan\<close> coefficients) is left open by this
  model, which then answers \<open>Nonfinite_system\<close>.
\<close>

datatype fit_outcome = Raised py_error | Fitted real real | Nonfinite_system

text \<open>
  \<open>np.polyfit(x, y, 1)\<close> over the reals. numpy refuses an empty \<open>x\<close> and vectors of
  different lengths with TypeError, divides each column of the Vandermonde matrix
  \<open>[x, 1]\<close> by its Euclidean norm (\<open>0 / 0\<close> when every \<open>x\<close> is zero), and solves the
  least-squares problem with \<open>lstsq\<close>. When the matrix has rank 1 (all \<open>x\<close> equal, in
  particular a single sample) \<open>lstsq\<close> returns the solution of least norm and numpy only
  warns (RankWarning); rescaled, that solution is slope \<open>mean(y) / (2 * x)\<close> and
  intercept \<open>mean(y) / 2\<close>. Otherwise the result is the ordinary least-squares line.
\<close>

definition np_polyfit1 :: "real list \<Rightarrow> real list \<Rightarrow> fit_outcome" where
  "np_polyfit1 x y =
     (if x = [] then Raised TypeError
      else if length x \<noteq> length y then Raised TypeError
      else if \<forall>v \<in> set x. v = 0 then Nonfinite_system
      else if \<forall>v \<in> set x. v = hd x then
        (let ybar = sum_list y / real (length y)
         in Fitted (ybar / (2 * hd x)) (ybar / 2))
      else
        (let n = real (length x);
             sx = sum_list x;
             sy = sum_list y;
             sxx = sum_list (map (\<lambda>v. v * v) x);
             sxy = sum_list (map2 (*) x y);
             slope = (n * sxy - sx * sy) / (n * sxx - sx * sx)
         in Fitted slope ((sy - slope * sx) / n)))"

text \<open>
  \<open>get_fan_power_model\<close> on the rows \<open>(server power, fan power)\<close> of the CSV file. The
  function has no check of its own on the samples. With \<open>normalized\<close> the fan powers are
  divided by their maximum, a pandas division: a maximum of zero makes every entry
  \<open>nan\<close> or \<open>-inf\<close>. The \<open>plot\<close> branch draws and does not change the result; it is
  left out.
\<close>

definition get_fan_power_model :: "(real \<times> real) list \<Rightarrow> bool \<Rightarrow> fit_outcome" where
  "get_fan_power_model df normalized =
     (let server_power = map fst df;
          fan_power = map snd df
      in if normalized \<and> df \<noteq> [] then
           (if Max (set fan_power) = 0 then Nonfinite_system
            else np_polyfit1 server_power (map (\<lambda>v. v / Max (set fan_power)) fan_power))
         else np_polyfit1 server_power fan_power)"

section \<open>Per-config savings: \<open>calculate_steps\<close>\<close>

text \<open>
  The three getters of \<open>ServerCarbon\<close> that \<open>calculate_steps\<close> reads, per sellable core.
  The class is outside the notebook: the function that gives the figures of a config
  file is a parameter of the model.
\<close>

record server_carbon =
  operational_per_sellable_core :: real
  embodied_per_sellable_core :: real
  carbon_per_sellable_core :: real

text \<open>A value of the savings dictionary: a Python int, or a float once blended.\<close>

datatype py_num = PyInt int | PyFloat real

fun num_val :: "py_num \<Rightarrow> real" where
  "num_val (PyInt i) = of_int i"
| "num_val (PyFloat x) = x"

text \<open>The dictionaries of one config, with the keys the function gives them.\<close>

record 'a metrics =
  config :: string
  operational :: 'a
  embodied :: 'a
  carbon :: 'a

text \<open>\<open>config.split("/")[-1].split(".")[0]\<close>\<close>

definition config_name :: "string \<Rightarrow> string" where
  "config_name c =
     takeWhile (\<lambda>ch. ch \<noteq> CHR ''.'') (rev (takeWhile (\<lambda>ch. ch \<noteq> CHR ''/'') (rev c)))"

text \<open>
  The double \<open>(ref - v)*100 / ref\<close> of two figures, each operation rounded as in the
  code, and \<open>int(round(..., 0))\<close> of it. A zero reference figure raises: the division of
  Python floats raises ZeroDivisionError (were the figures numpy floats, the division
  would give \<open>nan\<close> or \<open>inf\<close> and \<open>int\<close> would raise instead).
\<close>

definition saving_quotient :: "real \<Rightarrow> real \<Rightarrow> np_float" where
  "saving_quotient ref v = fl_div (fl_mul (fl_sub (fl ref) (fl v)) (Fin 100)) (fl ref)"

definition saving :: "real \<Rightarrow> real \<Rightarrow> py_error + int" where
  "saving ref v =
     (if fl ref = Fin 0 then Inl ZeroDivisionError else int_round (saving_quotient ref v))"

text \<open>The savings of one config against a reference, key by key in the dictionary's order.\<close>

definition savings_against :: "real metrics \<Rightarrow> real metrics \<Rightarrow> py_error + py_num metrics" where
  "savings_against ref info =
     (case saving (operational ref) (operational info) of
        Inl e \<Rightarrow> Inl e
      | Inr so \<Rightarrow>
          (case saving (embodied ref) (embodied info) of
             Inl e \<Rightarrow> Inl e
           | Inr se \<Rightarrow>
               (case saving (carbon ref) (carbon info) of
                  Inl e \<Rightarrow> Inl e
                | Inr sc \<Rightarrow>
                    Inr \<lparr>config = config info, operational = PyInt so,
                         embodied = PyInt se, carbon = PyInt sc\<rparr>)))"

text \<open>
  The blend that replaces the \<open>carbon\<close> entry when \<open>frac\<close> is not None. The
  argument is written \<open>frac'\<close>, since \<open>frac\<close> is a constant of HOL.
\<close>

definition blend :: "real option \<Rightarrow> py_num metrics \<Rightarrow> py_num metrics" where
  "blend frac' savings_dict =
     (case frac' of
        None \<Rightarrow> savings_dict
      | Some f \<Rightarrow>
          savings_dict\<lparr>carbon :=
            PyFloat (num_val (operational savings_dict) * f
                       + num_val (embodied savings_dict) * (1 - f))\<rparr>)"

text \<open>
  \<open>info_dict\<close> of a config, and the \<open>savings_dict\<close> of the first config (all zero).
  The config name, which the second loop of \<open>calculate_steps\<close> adds to every
  dictionary, is set from the start.
\<close>

definition info_dict :: "(string \<Rightarrow> server_carbon) \<Rightarrow> string \<Rightarrow> real metrics" where
  "info_dict sc c =
     \<lparr>config = config_name c,
      operational = operational_per_sellable_core (sc c),
      embodied = embodied_per_sellable_core (sc c),
      carbon = carbon_per_sellable_core (sc c)\<rparr>"

definition zero_savings :: "string \<Rightarrow> py_num metrics" where
  "zero_savings c =
     \<lparr>config = config_name c, operational = PyInt 0, embodied = PyInt 0, carbon = PyInt 0\<rparr>"

text \<open>
  The first loop of \<open>calculate_steps\<close>, from index \<open>i\<close> on, with the two lists built so
  far. Both lists have \<open>i\<close> entries when the body runs, so \<open>all_info[0]\<close> and
  \<open>all_info[i-1]\<close> are read in range whenever \<open>i > 0\<close>.
\<close>

fun steps_loop ::
  "(string \<Rightarrow> server_carbon) \<Rightarrow> real option \<Rightarrow> bool \<Rightarrow> nat \<Rightarrow> string list
     \<Rightarrow> real metrics list \<Rightarrow> py_num metrics list
     \<Rightarrow> py_error + (real metrics list \<times> py_num metrics list)" where
  "steps_loop sc frac' to_first i [] all_info all_savings = Inr (all_info, all_savings)"
| "steps_loop sc frac' to_first i (c # cs) all_info all_savings =
     (case (if 0 < i then
              (if to_first then savings_against (all_info ! 0) (info_dict sc c)
               else savings_against (all_info ! (i - 1)) (info_dict sc c))
            else Inr (zero_savings c)) of
        Inl e \<Rightarrow> Inl e
      | Inr savings_dict \<Rightarrow>
          steps_loop sc frac' to_first (Suc i) cs
            (all_info @ [info_dict sc c]) (all_savings @ [blend frac' savings_dict]))"

definition calculate_steps ::
  "(string \<Rightarrow> server_carbon) \<Rightarrow> string list \<Rightarrow> real option \<Rightarrow> bool
     \<Rightarrow> py_error + (real metrics list \<times> py_num metrics list)" where
  "calculate_steps sc configs frac' to_first = steps_loop sc frac' to_first 0 configs [] []"

section \<open>Example inputs\<close>

text \<open>
  A baseline design, an alternative with half its per-server carbon, and a cluster
  table whose two rows save 10\% and 30\%.
\<close>

definition ex_og :: server_model where
  "ex_og = \<lparr>per_server_carbon = 1, AFRs = 0, vcores = 1\<rparr>"

definition ex_new :: server_model where
  "ex_new = \<lparr>per_server_carbon = 1 / 2, AFRs = 0, vcores = 1\<rparr>"


definition ex_row :: "int \<Rightarrow> int \<Rightarrow> int \<Rightarrow> cluster_row" where
  "ex_row n b g =
     \<lparr>OriginalClusterSize = n, NewClusterSize_Baseline = b, NewClusterSize_GreenSKU = g\<rparr>"


text \<open>Two configs: the per-core figures of a baseline and of an alternative.\<close>

definition ex_sc :: "string \<Rightarrow> server_carbon" where
  "ex_sc c =
     (if c = ''../server_configs/Eval-Configs/Baseline.yaml''
      then \<lparr>operational_per_sellable_core = 1000, embodied_per_sellable_core = 1000,
            carbon_per_sellable_core = 2000\<rparr>
      else \<lparr>operational_per_sellable_core = 796, embodied_per_sellable_core = 746,
            carbon_per_sellable_core = 1542\<rparr>)"

definition ex_configs :: "string list" where
  "ex_configs =
     [''../server_configs/Eval-Configs/Baseline.yaml'',
      ''../server_configs/Eval-Configs/GreenSKU-Full.yaml'']"

section \<open>Evaluating doubles\<close>

text \<open>
  \<open>fl\<close> is evaluated by rewriting. The doubles of the decimal literals used below are
  the fractions that \<open>float.as_integer_ratio\<close> gives for them: \<open>0.1\<close> is
  \<open>3602879701896397 / 2^55\<close>, \<open>0.07\<close> is \<open>1261007895663739 / 2^54\<close>.
\<close>

lemma ilog2_numeral [simp]:
  "ilog2 (numeral k) = (if numeral k \<le> (1::int) then 0 else 1 + ilog2 (numeral k div 2))"
  by (rule ilog2.simps)

lemma ilog2_0 [simp]: "ilog2 0 = 0"
  by (simp add: ilog2.simps)

lemma ilog2_1 [simp]: "ilog2 1 = 0"
  by (simp add: ilog2.simps)

lemmas fl_eval = fl_def expo_def pow2_def py_round_def Let_def int64_to_double_def inf_of_def
  fl_sub_def

lemma fl_0 [simp]: "fl 0 = Fin 0"
  by (simp add: fl_def)

lemma fl_1 [simp]: "fl 1 = Fin 1"
  by (simp add: fl_eval)

lemma fl_tenth: "fl (1 / 10) = Fin (3602879701896397 / 36028797018963968)"
  by (simp add: fl_eval)

lemma fl_7_hundredths: "fl (7 / 100) = Fin (1261007895663739 / 18014398509481984)"
  by (simp add: fl_eval)




section \<open>Facts about \<open>process_csv\<close>\<close>


lemma apply_ceil_Inr:
  "apply_ceil xs = Inr ks \<Longrightarrow>
     length ks = length xs \<and> (\<forall>i < length xs. math_ceil (xs ! i) = Inr (ks ! i))"
proof (induction xs arbitrary: ks)
  case Nil
  then show ?case by simp
next
  case (Cons x xs)
  from Cons.prems obtain k ks' where k: "math_ceil x = Inr k"
    and ks': "apply_ceil xs = Inr ks'" and ks: "ks = k # ks'"
    by (auto split: sum.splits)
  from Cons.IH [OF ks'] have len: "length ks' = length xs"
    and nth: "\<forall>i < length xs. math_ceil (xs ! i) = Inr (ks' ! i)"
    by simp_all
  have "math_ceil ((x # xs) ! i) = Inr (ks ! i)" if "i < length (x # xs)" for i
    using that k nth ks by (cases i) simp_all
  with len ks show ?case by simp
qed

lemma ceil_column_Inr:
  assumes "ceil_column xs = Inr ks"
  shows "length ks = length xs"
    and "i < length xs \<Longrightarrow> math_ceil (xs ! i) = Inr (ks ! i)"
    and "i < length xs \<Longrightarrow> in_int64 (ks ! i)"
proof -
  from assms have a: "apply_ceil xs = Inr ks" and b: "list_all in_int64 ks"
    by (auto simp: ceil_column_def split: sum.splits if_splits)
  from apply_ceil_Inr [OF a] show "length ks = length xs"
    and "i < length xs \<Longrightarrow> math_ceil (xs ! i) = Inr (ks ! i)"
    by simp_all
  then show "i < length xs \<Longrightarrow> in_int64 (ks ! i)"
    using b by (simp add: list_all_length)
qed


lemma frame_rows:
  assumes "num_og_buffer_column buffer csv = Inr nobs"
    and "total_num_buffer_column og_sc new_sc buffer csv = Inr tnbs"
    and "df = map (\<lambda>(r, nob, tnb). row_columns og_sc new_sc buffer r nob tnb)
                (zip csv (zip nobs tnbs))"
  shows "length df = length csv"
    and "i < length csv \<Longrightarrow> df ! i = row_columns og_sc new_sc buffer (csv ! i) (nobs ! i) (tnbs ! i)"
    and "i < length csv \<Longrightarrow> math_ceil (num_buffer_float buffer (csv ! i)) = Inr (nobs ! i)"
    and "i < length csv \<Longrightarrow>
           math_ceil (total_num_buffer_float og_sc new_sc buffer (csv ! i)) = Inr (tnbs ! i)"
    and "i < length csv \<Longrightarrow> in_int64 (nobs ! i) \<and> in_int64 (tnbs ! i)"
proof -
  note n = ceil_column_Inr [OF assms(1) [unfolded num_og_buffer_column_def]]
  note t = ceil_column_Inr [OF assms(2) [unfolded total_num_buffer_column_def]]
  have ln: "length nobs = length csv" and lt: "length tnbs = length csv"
    using n(1) t(1) by simp_all
  show "length df = length csv"
    by (simp add: assms(3) ln lt)
  show "i < length csv \<Longrightarrow> df ! i = row_columns og_sc new_sc buffer (csv ! i) (nobs ! i) (tnbs ! i)"
    by (simp add: assms(3) ln lt)
  show "i < length csv \<Longrightarrow> math_ceil (num_buffer_float buffer (csv ! i)) = Inr (nobs ! i)"
    using n(2) [of i] by simp
  show "i < length csv \<Longrightarrow>
           math_ceil (total_num_buffer_float og_sc new_sc buffer (csv ! i)) = Inr (tnbs ! i)"
    using t(2) [of i] by simp
  show "i < length csv \<Longrightarrow> in_int64 (nobs ! i) \<and> in_int64 (tnbs ! i)"
    using n(3) [of i] t(3) [of i] by simp
qed

lemma row_columns_fields [simp]:
  "OriginalClusterSize (row_columns og_sc new_sc buffer r nob tnb) = OriginalClusterSize r"
  "NewClusterSize_Baseline (row_columns og_sc new_sc buffer r nob tnb) = NewClusterSize_Baseline r"
  "NewClusterSize_GreenSKU (row_columns og_sc new_sc buffer r nob tnb) = NewClusterSize_GreenSKU r"
  "num_buffer (row_columns og_sc new_sc buffer r nob tnb) = num_buffer_float buffer r"
  "num_og_buffer (row_columns og_sc new_sc buffer r nob tnb) = nob"
  "total_num_buffer (row_columns og_sc new_sc buffer r nob tnb) = tnb"
  "start_og_carbon (row_columns og_sc new_sc buffer r nob tnb) =
     of_int (wrap64 (OriginalClusterSize r + nob)) * per_server_carbon og_sc * (1 + AFRs og_sc)"
  "total_carbon (row_columns og_sc new_sc buffer r nob tnb) =
     of_int (wrap64 (NewClusterSize_Baseline r + tnb)) * per_server_carbon og_sc
       * (1 + AFRs og_sc)
     + of_int (NewClusterSize_GreenSKU r) * per_server_carbon new_sc * (1 + AFRs new_sc)"
  by (simp_all add: row_columns_def Let_def)

lemma row_columns_perc:
  "perc_saved_carbon (row_columns og_sc new_sc buffer r nob tnb) =
     np_true_divide
       ((start_og_carbon (row_columns og_sc new_sc buffer r nob tnb)
           - total_carbon (row_columns og_sc new_sc buffer r nob tnb)) * 100)
       (start_og_carbon (row_columns og_sc new_sc buffer r nob tnb))
       (((wrap64 (OriginalClusterSize r + nob) < 0) \<noteq> (per_server_carbon og_sc < 0))
          \<noteq> (1 + AFRs og_sc < 0))"
  by (simp add: row_columns_def Let_def)

lemma frame_sizes:
  assumes "length nobs = length csv" and "length tnbs = length csv"
  shows "map OriginalClusterSize
           (map (\<lambda>(r, nob, tnb). row_columns og_sc new_sc buffer r nob tnb)
              (zip csv (zip nobs tnbs)))
         = map OriginalClusterSize csv"
  using assms by (auto simp: list_eq_iff_nth_eq)


text \<open>
  When both buffer columns are computed and the weights do not sum to zero,
  \<open>process_csv\<close> returns.
\<close>

lemma process_csv_returns:
  assumes "list_all sizes_int64 csv"
    and "num_og_buffer_column buffer csv = Inr nobs"
    and "total_num_buffer_column og_sc new_sc buffer csv = Inr tnbs"
    and "sum_list (map OriginalClusterSize csv) \<noteq> 0"
  shows "\<exists>avg. process_csv csv og_sc new_sc buffer wc
           = Inr (map (\<lambda>(r, nob, tnb). row_columns og_sc new_sc buffer r nob tnb)
                    (zip csv (zip nobs tnbs)), avg)"
proof -
  have "length nobs = length csv" "length tnbs = length csv"
    using ceil_column_Inr(1) assms(2,3)
    by (simp_all add: num_og_buffer_column_def total_num_buffer_column_def)
  then have "map OriginalClusterSize
           (map (\<lambda>(r, nob, tnb). row_columns og_sc new_sc buffer r nob tnb)
              (zip csv (zip nobs tnbs)))
         = map OriginalClusterSize csv"
    by (rule frame_sizes)
  then show ?thesis
    using assms by (simp add: process_csv_def Let_def np_average_def)
qed

text \<open>
  An empty table raises: \<open>np.average\<close> finds that the weights sum to zero.
\<close>

lemma process_csv_empty: "process_csv [] og_sc new_sc buffer wc = Inl ZeroDivisionError"
  by (simp add: process_csv_def num_og_buffer_column_def total_num_buffer_column_def
      ceil_column_def np_average_def)



section \<open>The example tables, evaluated\<close>

lemma num_buffer_zero: "num_buffer_float (1 / 10) (ex_row 0 0 0) = Fin 0"
  by (simp add: num_buffer_float_def ex_row_def fl_tenth int64_to_double_def)

lemma total_num_buffer_zero:
  "total_num_buffer_float ex_og ex_new (1 / 10) (ex_row 0 0 0) = Fin 0"
  by (simp add: total_num_buffer_float_def ex_row_def ex_og_def ex_new_def fl_tenth
      int64_to_double_def)

lemma num_buffer_ex1: "num_buffer_float (1 / 10) (ex_row 100 79 20) = Fin 10"
  by (simp add: num_buffer_float_def ex_row_def fl_tenth) (simp add: fl_eval)

lemma total_num_buffer_ex1:
  "total_num_buffer_float ex_og ex_new (1 / 10) (ex_row 100 79 20)
     = Fin (5573204538870989 / 562949953421312)"
  apply (simp add: total_num_buffer_float_def ex_row_def ex_og_def ex_new_def fl_tenth)
  apply (simp add: fl_eval)
  done







lemma num_og_buffer_column_zero_row:
  "num_og_buffer_column (1 / 10) [ex_row 0 0 0, ex_row 100 79 20] = Inr [0, 10]"
  by (simp add: num_og_buffer_column_def ceil_column_def num_buffer_zero num_buffer_ex1
      in_int64_def)

lemma total_num_buffer_column_zero_row:
  "total_num_buffer_column ex_og ex_new (1 / 10) [ex_row 0 0 0, ex_row 100 79 20] = Inr [0, 10]"
  by (simp add: total_num_buffer_column_def ceil_column_def total_num_buffer_zero
      total_num_buffer_ex1 in_int64_def)

text \<open>
  A product that the double arithmetic rounds above a whole number: 100 servers with a
  buffer fraction of 0.07 give 7.000000000000001 and a buffer of 8, where the exact
  product is 7.
\<close>

lemma num_buffer_100_007:
  "num_buffer_float (7 / 100) (ex_row 100 50 50)
     = Fin (7881299347898369 / 1125899906842624)"
  by (simp add: num_buffer_float_def ex_row_def fl_7_hundredths) (simp add: fl_eval)

lemma growth_buffer_100_007:
  "math_ceil (num_buffer_float (7 / 100) (ex_row 100 50 50)) = Inr 8"
  "\<lceil>100 * (7 / 100 :: real)\<rceil> = 7"
  unfolding num_buffer_100_007 by simp_all

lemma sizes_int64_ex_row:
  "sizes_int64 (ex_row n b g) \<longleftrightarrow> in_int64 n \<and> in_int64 b \<and> in_int64 g"
  by (simp add: sizes_int64_def ex_row_def)


lemma row_columns_ex1:
  "row_columns ex_og ex_new (1 / 10) (ex_row 100 79 20) 10 10 =
     \<lparr>OriginalClusterSize = 100, NewClusterSize_Baseline = 79,
      NewClusterSize_GreenSKU = 20, num_buffer = Fin 10, num_og_buffer = 10,
      start_og_carbon = 110, total_num_buffer = 10, total_carbon = 99,
      perc_saved_carbon = Fin 10\<rparr>"
  unfolding row_columns_def Let_def num_buffer_ex1
  by (simp add: ex_row_def ex_og_def ex_new_def wrap64_def np_true_divide_def)


lemma row_columns_zero:
  "row_columns ex_og ex_new (1 / 10) (ex_row 0 0 0) 0 0 =
     \<lparr>OriginalClusterSize = 0, NewClusterSize_Baseline = 0,
      NewClusterSize_GreenSKU = 0, num_buffer = Fin 0, num_og_buffer = 0,
      start_og_carbon = 0, total_num_buffer = 0, total_carbon = 0,
      perc_saved_carbon = NaN\<rparr>"
  unfolding row_columns_def Let_def num_buffer_zero
  by (simp add: ex_row_def ex_og_def ex_new_def wrap64_def np_true_divide_def)



lemma process_csv_zero_row:
  "process_csv [ex_row 0 0 0, ex_row 100 79 20] ex_og ex_new (1 / 10) False =
     Inr ([\<lparr>OriginalClusterSize = 0, NewClusterSize_Baseline = 0,
            NewClusterSize_GreenSKU = 0, num_buffer = Fin 0, num_og_buffer = 0,
            start_og_carbon = 0, total_num_buffer = 0, total_carbon = 0,
            perc_saved_carbon = NaN\<rparr>,
           \<lparr>OriginalClusterSize = 100, NewClusterSize_Baseline = 79,
            NewClusterSize_GreenSKU = 20, num_buffer = Fin 10, num_og_buffer = 10,
            start_og_carbon = 110, total_num_buffer = 10, total_carbon = 99,
            perc_saved_carbon = Fin 10\<rparr>],
          Fin 10)"
  unfolding process_csv_def num_og_buffer_column_zero_row total_num_buffer_column_zero_row
  by (simp add: sizes_int64_ex_row in_int64_def row_columns_zero row_columns_ex1
      np_average_def series_mean_def np_true_divide_def)

section \<open>Facts about the two averages\<close>

lemma np_sum_Fin: "np_sum (map Fin xs) = Fin (sum_list xs)"
  by (induction xs) auto

lemma series_mean_Fin:
  "xs \<noteq> [] \<Longrightarrow> series_mean (map Fin xs) = Fin (sum_list xs / real (length xs))"
  by (simp add: series_mean_def Let_def np_sum_Fin np_true_divide_def)








section \<open>The growth buffer of the baseline-only cluster\<close>



section \<open>The mixed cluster\<close>



section \<open>The percentage saved\<close>

lemma np_true_divide_cases:
  "(s \<noteq> 0 \<longrightarrow> np_true_divide x s z = Fin (x / s))
   \<and> (s = 0 \<longrightarrow> x = 0 \<longrightarrow> np_true_divide x s z = NaN)
   \<and> (s = 0 \<longrightarrow> x \<noteq> 0 \<longrightarrow> np_true_divide x s z = PInf \<or> np_true_divide x s z = NInf)"
  by (simp add: np_true_divide_def)

text \<open>
  The table with a row of size zero: its baseline total is zero, the percentage of that
  row is \<open>nan\<close>, and \<open>process_csv\<close> returns the unweighted average 10 of the other
  row; nothing is raised. (Claim C1 as stated, refuted at this table.)
\<close>

theorem C1_zero_baseline_counterexample:
  "process_csv [ex_row 0 0 0, ex_row 100 79 20] ex_og ex_new (1 / 10) False =
     Inr ([\<lparr>OriginalClusterSize = 0, NewClusterSize_Baseline = 0,
            NewClusterSize_GreenSKU = 0, num_buffer = Fin 0, num_og_buffer = 0,
            start_og_carbon = 0, total_num_buffer = 0, total_carbon = 0,
            perc_saved_carbon = NaN\<rparr>,
           \<lparr>OriginalClusterSize = 100, NewClusterSize_Baseline = 79,
            NewClusterSize_GreenSKU = 20, num_buffer = Fin 10, num_og_buffer = 10,
            start_og_carbon = 110, total_num_buffer = 10, total_carbon = 99,
            perc_saved_carbon = Fin 10\<rparr>],
          Fin 10)"
  by (rule process_csv_zero_row)

text \<open>
  Claim C1, amended. Whenever the sizes are int64 values, the two \<open>math.ceil\<close> columns
  are computed (no product is \<open>nan\<close> or infinite, and the buffers are int64 values) and
  the weights do not sum to zero, \<open>process_csv\<close> returns: the division of the
  percentage raises nothing. In every row the baseline total is the int64 sum
  \<open>OriginalClusterSize + num_og_buffer\<close> of servers at the baseline's carbon and
  overhead; where it is not zero the percentage saved is \<open>(baseline_total - mixed_total)
  * 100 / baseline_total\<close>; where it is zero the percentage is \<open>nan\<close> (mixed total zero
  too) or an infinity.
\<close>

theorem C1_percentage_saved_never_raises:
  assumes "list_all sizes_int64 csv"
    and "num_og_buffer_column buffer csv = Inr nobs"
    and "total_num_buffer_column og_sc new_sc buffer csv = Inr tnbs"
    and "sum_list (map OriginalClusterSize csv) \<noteq> 0"
  shows "\<exists>df avg. process_csv csv og_sc new_sc buffer weight_cluster = Inr (df, avg)
           \<and> length df = length csv
           \<and> (\<forall>i < length csv.
                 start_og_carbon (df ! i) =
                   of_int (wrap64 (OriginalClusterSize (csv ! i) + num_og_buffer (df ! i)))
                     * per_server_carbon og_sc * (1 + AFRs og_sc)
               \<and> (start_og_carbon (df ! i) \<noteq> 0 \<longrightarrow>
                    perc_saved_carbon (df ! i) =
                      Fin ((start_og_carbon (df ! i) - total_carbon (df ! i)) * 100
                             / start_og_carbon (df ! i)))
               \<and> (start_og_carbon (df ! i) = 0 \<longrightarrow> total_carbon (df ! i) = 0 \<longrightarrow>
                    perc_saved_carbon (df ! i) = NaN)
               \<and> (start_og_carbon (df ! i) = 0 \<longrightarrow> total_carbon (df ! i) \<noteq> 0 \<longrightarrow>
                    perc_saved_carbon (df ! i) = PInf \<or> perc_saved_carbon (df ! i) = NInf))"
proof -
  define df where "df = map (\<lambda>(r, nob, tnb). row_columns og_sc new_sc buffer r nob tnb)
                          (zip csv (zip nobs tnbs))"
  obtain avg where p: "process_csv csv og_sc new_sc buffer weight_cluster = Inr (df, avg)"
    unfolding df_def using process_csv_returns [OF assms] by blast
  note f = frame_rows [OF assms(2,3) df_def]
  have "start_og_carbon (df ! i) =
                   of_int (wrap64 (OriginalClusterSize (csv ! i) + num_og_buffer (df ! i)))
                     * per_server_carbon og_sc * (1 + AFRs og_sc)
               \<and> (start_og_carbon (df ! i) \<noteq> 0 \<longrightarrow>
                    perc_saved_carbon (df ! i) =
                      Fin ((start_og_carbon (df ! i) - total_carbon (df ! i)) * 100
                             / start_og_carbon (df ! i)))
               \<and> (start_og_carbon (df ! i) = 0 \<longrightarrow> total_carbon (df ! i) = 0 \<longrightarrow>
                    perc_saved_carbon (df ! i) = NaN)
               \<and> (start_og_carbon (df ! i) = 0 \<longrightarrow> total_carbon (df ! i) \<noteq> 0 \<longrightarrow>
                    perc_saved_carbon (df ! i) = PInf \<or> perc_saved_carbon (df ! i) = NInf)"
    if i: "i < length csv" for i
  proof -
    define s where "s = start_og_carbon (df ! i)"
    define t where "t = total_carbon (df ! i)"
    have "start_og_carbon (df ! i) =
            of_int (wrap64 (OriginalClusterSize (csv ! i) + num_og_buffer (df ! i)))
              * per_server_carbon og_sc * (1 + AFRs og_sc)"
      by (simp add: f(2) [OF i])
    moreover have "\<exists>z. perc_saved_carbon (df ! i) = np_true_divide ((s - t) * 100) s z"
      unfolding s_def t_def f(2) [OF i] by (subst row_columns_perc) blast
    then obtain z where "perc_saved_carbon (df ! i) = np_true_divide ((s - t) * 100) s z" ..
    ultimately show ?thesis
      using np_true_divide_cases [of s "(s - t) * 100" z]
      unfolding s_def [symmetric] t_def [symmetric] by auto
  qed
  with p f(1) show ?thesis by blast
qed

text \<open>
  The table with a row of size zero again: it meets the hypotheses, and its first
  percentage is \<open>nan\<close>.
\<close>

theorem C1_percentage_saved_witness:
  "list_all sizes_int64 [ex_row 0 0 0, ex_row 100 79 20]
   \<and> sum_list (map OriginalClusterSize [ex_row 0 0 0, ex_row 100 79 20]) \<noteq> 0
   \<and> (case process_csv [ex_row 0 0 0, ex_row 100 79 20] ex_og ex_new (1 / 10) False of
        Inl e \<Rightarrow> False
      | Inr (df, avg) \<Rightarrow>
          start_og_carbon (df ! 0) = 0 \<and> perc_saved_carbon (df ! 0) = NaN
            \<and> perc_saved_carbon (df ! 1) = Fin 10)"
proof -
  have s: "list_all sizes_int64 [ex_row 0 0 0, ex_row 100 79 20]"
    by (simp add: sizes_int64_ex_row in_int64_def)
  have w: "sum_list (map OriginalClusterSize [ex_row 0 0 0, ex_row 100 79 20]) \<noteq> 0"
    by (simp add: ex_row_def)
  obtain df avg where
    p: "process_csv [ex_row 0 0 0, ex_row 100 79 20] ex_og ex_new (1 / 10) False = Inr (df, avg)"
    and q: "\<forall>i < length [ex_row 0 0 0, ex_row 100 79 20].
              start_og_carbon (df ! i) = 0 \<longrightarrow> total_carbon (df ! i) = 0 \<longrightarrow>
                perc_saved_carbon (df ! i) = NaN"
    using C1_percentage_saved_never_raises
      [OF s num_og_buffer_column_zero_row total_num_buffer_column_zero_row w, of False]
    by blast
  have "start_og_carbon (df ! 0) = 0" "total_carbon (df ! 0) = 0"
    "perc_saved_carbon (df ! 1) = Fin 10"
    using p by (auto simp: process_csv_zero_row)
  moreover from this q have "perc_saved_carbon (df ! 0) = NaN" by simp
  ultimately show ?thesis using s w by (simp add: p)
qed

section \<open>The two rollups\<close>



section \<open>Aggregating a cluster against itself\<close>


















section \<open>Rounding and the reported figures\<close>

text \<open>
  \<open>py_round\<close> is a nearest whole number, and ties go to the even one.
\<close>

lemma py_round_nearest: "\<bar>of_int (py_round x) - x\<bar> \<le> 1 / 2"
  unfolding py_round_def Let_def by (auto; linarith)

lemma py_round_of_int: "py_round (of_int k) = k"
  by (simp add: py_round_def)

lemma compute_operational_value: "compute_operational = 676172 / 1000000"
  by (simp add: compute_operational_def operational_it_def operational_compute_of_it_def)

lemma compute_embodied_value: "compute_embodied = 419016 / 1000000"
  by (simp add: compute_embodied_def embodied_it_def embodied_compute_of_it_def)

lemma py_round_14_4: "py_round (144 / 10) = 14" by (simp add: py_round_def Let_def)
lemma py_round_7_5: "py_round (75 / 10) = 8" by (simp add: py_round_def Let_def)
lemma py_round_6_5: "py_round (65 / 10) = 6" by (simp add: py_round_def Let_def)
lemma py_round_minus_6_5: "py_round (-65 / 10) = -6" by (simp add: py_round_def Let_def)

text \<open>
  The datacenter discount of the paper: a cluster-level 14\% and a rack-level operational
  share of 31.5\% (a compute fraction of about one half) are reported as 7\%.
\<close>

lemma dc_savings_14:
  "dc_savings 14 (63 / 2) = 7"
  by (simp add: dc_savings_def dc_savings_product_def cluster_dc_fraction_def Let_def
      compute_operational_def compute_embodied_def operational_it_def embodied_it_def
      operational_compute_of_it_def embodied_compute_of_it_def py_round_def)

text \<open>
  Claim C6. The datacenter-level savings, as first assigned, is the cluster-level
  savings times the blended compute fraction \<open>compute_operational * share +
  compute_embodied * (1 - share)\<close>, where \<open>share\<close> is the baseline's rack-level
  operational percentage divided by 100 and the two compute fractions are the products
  0.868 * 0.779 and 0.948 * 0.442. The figure that is reported is this product rounded:
  it is within one half of it.
\<close>

theorem C6_dc_savings_blend:
  "dc_savings_product cs p
     = of_int cs * (compute_operational * (p / 100) + compute_embodied * (1 - p / 100))
   \<and> compute_operational = operational_it * operational_compute_of_it
   \<and> compute_embodied = embodied_it * embodied_compute_of_it
   \<and> compute_operational = 676172 / 1000000
   \<and> compute_embodied = 419016 / 1000000
   \<and> \<bar>of_int (dc_savings cs p) - dc_savings_product cs p\<bar> \<le> 1 / 2"
proof -
  have "dc_savings_product cs p
     = of_int cs * (compute_operational * (p / 100) + compute_embodied * (1 - p / 100))"
    by (simp add: dc_savings_product_def cluster_dc_fraction_def Let_def)
  moreover have "\<bar>of_int (dc_savings cs p) - dc_savings_product cs p\<bar> \<le> 1 / 2"
    unfolding dc_savings_def by (rule py_round_nearest)
  ultimately show ?thesis
    using compute_operational_value compute_embodied_value
    by (simp add: compute_operational_def compute_embodied_def)
qed



section \<open>The average carbon intensity\<close>

text \<open>
  Claim C7. \<open>calculate_average_dc_carbon_intensity\<close> returns the arithmetic mean,
  over all records, of \<open>(fraction * renewable intensity + (1 - fraction) * grid
  intensity) / 1000\<close> with \<open>fraction = Renewable % / 100\<close>. For no record at all the
  mean of the empty column is \<open>nan\<close>.
\<close>

theorem C7_average_carbon_intensity:
  "calculate_average_dc_carbon_intensity dc_data =
     (if dc_data = [] then NaN
      else Fin ((\<Sum>r\<leftarrow>dc_data.
                   ((Renewable_pct r / 100) * Avg_Renewable_Intensity r
                      + (1 - Renewable_pct r / 100) * Avg_Grid_Intensity r) / 1000)
                / real (length dc_data)))"
proof (cases "dc_data = []")
  case True
  then show ?thesis
    by (simp add: calculate_average_dc_carbon_intensity_def series_mean_def)
next
  case False
  then have "map (\<lambda>c. c / 1000) (map carbon_intensity_g dc_data) \<noteq> []" by simp
  from series_mean_Fin [OF this] False show ?thesis
    by (simp add: calculate_average_dc_carbon_intensity_def Let_def carbon_intensity_g_def
        comp_def)
qed

section \<open>Facts about double rounding\<close>

lemma pow2_pos: "0 < pow2 k"
  by (simp add: pow2_def)

lemma pow2_powi: "pow2 k = 2 powi k"
  by (simp add: pow2_def power_int_def field_simps)

lemma pow2_Suc: "pow2 (k + 1) = 2 * pow2 k"
  by (simp add: pow2_powi power_int_add_1')

lemma pow2_mono: "a \<le> b \<Longrightarrow> pow2 a \<le> pow2 b"
  by (simp add: pow2_powi power_int_increasing)

lemma pow2_diff_52: "pow2 (k - 52) = pow2 k / 2 ^ 52"
  by (simp add: pow2_powi power_int_diff)

lemma ilog2_bounds:
  "1 \<le> n \<Longrightarrow> 0 \<le> ilog2 n \<and> 2 ^ nat (ilog2 n) \<le> n \<and> n < 2 * 2 ^ nat (ilog2 n)"
proof (induction n rule: ilog2.induct)
  case (1 n)
  show ?case
  proof (cases "n \<le> 1")
    case True
    with 1(2) have "n = 1" by simp
    then show ?thesis by (simp add: ilog2.simps)
  next
    case False
    then have h: "1 \<le> n div 2" by simp
    note ih = 1(1) [OF False h]
    have e: "ilog2 n = 1 + ilog2 (n div 2)"
      using False by (subst ilog2.simps) simp
    have p: "(2::int) ^ nat (1 + ilog2 (n div 2)) = 2 * 2 ^ nat (ilog2 (n div 2))"
      using ih by (simp add: nat_add_distrib)
    from ih have "2 * 2 ^ nat (ilog2 (n div 2)) \<le> 2 * (n div 2)"
      and "2 * (n div 2) + 2 \<le> 2 * (2 * 2 ^ nat (ilog2 (n div 2)))"
      by linarith+
    moreover have "2 * (n div 2) \<le> n" "n < 2 * (n div 2) + 2"
      by linarith+
    ultimately show ?thesis
      unfolding e p using ih by linarith
  qed
qed

text \<open>\<open>expo\<close> is the binary exponent.\<close>

lemma expo_bounds:
  assumes "0 < x"
  shows "pow2 (expo x) \<le> x \<and> x < pow2 (expo x + 1)"
proof (cases "1 \<le> x")
  case True
  then have n: "1 \<le> \<lfloor>x\<rfloor>" by simp
  note b = ilog2_bounds [OF n]
  have e: "expo x = ilog2 \<lfloor>x\<rfloor>" using True by (simp add: expo_def)
  have p: "pow2 (expo x) = 2 ^ nat (ilog2 \<lfloor>x\<rfloor>)"
    using b by (simp add: pow2_def e)
  have "(2::real) ^ nat (ilog2 \<lfloor>x\<rfloor>) = of_int (2 ^ nat (ilog2 \<lfloor>x\<rfloor>))" by simp
  also have "\<dots> \<le> of_int \<lfloor>x\<rfloor>" using b by (simp only: of_int_le_iff)
  also have "\<dots> \<le> x" by simp
  finally have lo: "pow2 (expo x) \<le> x" by (simp add: p)
  have "\<lfloor>x\<rfloor> + 1 \<le> 2 * 2 ^ nat (ilog2 \<lfloor>x\<rfloor>)" using b by linarith
  then have "(of_int (\<lfloor>x\<rfloor> + 1) :: real) \<le> of_int (2 * 2 ^ nat (ilog2 \<lfloor>x\<rfloor>))"
    by (simp only: of_int_le_iff)
  then have c: "of_int \<lfloor>x\<rfloor> + 1 \<le> 2 * (2::real) ^ nat (ilog2 \<lfloor>x\<rfloor>)" by simp
  have a: "x < of_int \<lfloor>x\<rfloor> + 1" by linarith
  from a c have "x < 2 * pow2 (expo x)" unfolding p by linarith
  with lo show ?thesis by (simp add: pow2_Suc)
next
  case False
  define m where "m = \<lceil>1 / x\<rceil> - 1"
  have inv: "1 < 1 / x" using assms False by simp
  then have n: "1 \<le> m" unfolding m_def by linarith
  note b = ilog2_bounds [OF n]
  have m1: "of_int m < 1 / x" unfolding m_def by linarith
  have m2: "1 / x \<le> of_int m + 1" unfolding m_def by linarith
  have e: "expo x = - (1 + ilog2 m)" using False by (simp add: expo_def m_def)
  have p: "pow2 (expo x) = 1 / (2 * 2 ^ nat (ilog2 m))"
    using b by (simp add: pow2_def e nat_add_distrib)
  have "(of_int (m + 1) :: real) \<le> of_int (2 * 2 ^ nat (ilog2 m))"
    using b by (simp only: of_int_le_iff) linarith
  with m2 have "1 / x \<le> 2 * 2 ^ nat (ilog2 m)" by simp
  then have "1 \<le> 2 * 2 ^ nat (ilog2 m) * x"
    using assms by (simp add: field_simps)
  then have lo: "pow2 (expo x) \<le> x"
    unfolding p by (simp add: field_simps)
  have "(of_int (2 ^ nat (ilog2 m)) :: real) \<le> of_int m"
    using b by (simp only: of_int_le_iff)
  then have d: "(2::real) ^ nat (ilog2 m) \<le> of_int m" by simp
  from d m1 have "2 ^ nat (ilog2 m) < 1 / x" by linarith
  then have "2 ^ nat (ilog2 m) * x < 1"
    using assms by (simp add: field_simps)
  then have "x < 2 * pow2 (expo x)"
    unfolding p by (simp add: field_simps)
  with lo show ?thesis by (simp add: pow2_Suc)
qed

text \<open>
  A finite \<open>fl x\<close> is a multiple of the spacing of the doubles at \<open>x\<close> and at most half
  that spacing away from \<open>x\<close>, which is at most \<open>\<bar>x\<bar> * 2^-53\<close> for a normal \<open>x\<close>.
\<close>

lemma fl_nearest:
  assumes "fl x = Fin r"
  shows "\<exists>m. r = of_int m * pow2 (max (expo \<bar>x\<bar>) (- 1022) - 52)
           \<and> \<bar>r - x\<bar> \<le> pow2 (max (expo \<bar>x\<bar>) (- 1022) - 52) / 2"
proof (cases "x = 0")
  case True
  with assms have "r = 0" by (simp add: fl_def)
  with True show ?thesis
    using pow2_pos [of "max (expo \<bar>x\<bar>) (- 1022) - 52"] by (intro exI [of _ 0]) simp
next
  case False
  define q where "q = pow2 (max (expo \<bar>x\<bar>) (- 1022) - 52)"
  have q: "0 < q" unfolding q_def by (rule pow2_pos)
  have r: "r = of_int (py_round (x / q)) * q"
    using assms False by (simp add: fl_def Let_def q_def split: if_splits)
  have "r - x = (of_int (py_round (x / q)) - x / q) * q"
    using q by (simp add: r field_simps)
  then have "\<bar>r - x\<bar> = \<bar>of_int (py_round (x / q)) - x / q\<bar> * q"
    using q by (simp add: abs_mult)
  also have "\<dots> \<le> 1 / 2 * q"
    using q py_round_nearest [of "x / q"] by (intro mult_right_mono) simp_all
  finally have "\<bar>r - x\<bar> \<le> q / 2" by simp
  with r show ?thesis
    unfolding q_def [symmetric] by (intro exI [of _ "py_round (x / q)"]) simp
qed

lemma fl_relative_error:
  assumes "fl x = Fin r" and "pow2 (- 1022) \<le> \<bar>x\<bar>"
  shows "\<bar>r - x\<bar> \<le> \<bar>x\<bar> / 2 ^ 53"
proof -
  have pos: "0 < \<bar>x\<bar>" using assms(2) pow2_pos [of "- 1022"] by linarith
  note b = expo_bounds [OF pos]
  have e: "- 1022 \<le> expo \<bar>x\<bar>"
  proof (rule ccontr)
    assume "\<not> - 1022 \<le> expo \<bar>x\<bar>"
    then have "expo \<bar>x\<bar> + 1 \<le> - 1022" by simp
    then have "pow2 (expo \<bar>x\<bar> + 1) \<le> pow2 (- 1022)"
      by (rule pow2_mono)
    with b assms(2) show False by linarith
  qed
  note s = pow2_diff_52 [of "expo \<bar>x\<bar>"]
  from fl_nearest [OF assms(1)] have "\<bar>r - x\<bar> \<le> pow2 (expo \<bar>x\<bar> - 52) / 2"
    using e by (auto simp: max_def)
  also have "\<dots> = pow2 (expo \<bar>x\<bar>) / 2 ^ 53" by (simp add: s)
  also have "\<dots> \<le> \<bar>x\<bar> / 2 ^ 53" using b by (simp add: divide_right_mono)
  finally show ?thesis .
qed

text \<open>An integer of size at most \<open>2^53\<close> is a double: the conversion of such a size is exact.\<close>

lemma fl_of_int_exact:
  assumes "\<bar>k\<bar> \<le> 2 ^ 53"
  shows "fl (of_int k) = Fin (of_int k)"
proof (cases "k = 0")
  case True
  then show ?thesis by simp
next
  case False
  define e where "e = expo \<bar>of_int k\<bar>"
  have pos: "0 < \<bar>real_of_int k\<bar>" using False by simp
  have "real_of_int \<bar>k\<bar> \<le> real_of_int (2 ^ 53)"
    using assms by (simp only: of_int_le_iff)
  then have kr: "\<bar>real_of_int k\<bar> \<le> 2 ^ 53" by simp
  have "1 \<le> \<bar>k\<bar>" using False by simp
  then have "real_of_int 1 \<le> real_of_int \<bar>k\<bar>" by (simp only: of_int_le_iff)
  then have one: "1 \<le> \<bar>real_of_int k\<bar>" by simp
  have fl: "\<lfloor>\<bar>real_of_int k\<bar>\<rfloor> = \<bar>k\<bar>"
    by (simp flip: of_int_abs)
  have e0: "0 \<le> e"
    unfolding e_def expo_def using one ilog2_bounds [OF \<open>1 \<le> \<bar>k\<bar>\<close>] by (simp add: fl)
  note b = expo_bounds [OF pos, folded e_def]
  have e53: "e \<le> 53"
  proof (rule ccontr)
    assume "\<not> e \<le> 53"
    then have "54 \<le> e" by simp
    then have "pow2 54 \<le> pow2 e" by (rule pow2_mono)
    moreover have "pow2 54 = 2 ^ 54" by (simp add: pow2_def)
    ultimately show False using b kr by simp
  qed
  have m: "max e (- 1022) = e" using e0 by simp
  define q where "q = pow2 (e - 52)"
  have q: "0 < q" unfolding q_def by (rule pow2_pos)
  have int: "\<exists>j. real_of_int k / q = of_int j"
  proof (cases "e \<le> 52")
    case True
    then have "q = 1 / 2 ^ nat (52 - e)"
      unfolding q_def by (cases "e = 52") (simp_all add: pow2_def)
    then have "real_of_int k / q = of_int (k * 2 ^ nat (52 - e))" by simp
    then show ?thesis ..
  next
    case f: False
    with e53 have e: "e = 53" by simp
    have q2: "q = 2" unfolding q_def e by (simp add: pow2_def)
    have "2 ^ 53 \<le> \<bar>real_of_int k\<bar>" using b by (simp add: e pow2_def)
    then have "real_of_int (2 ^ 53) \<le> real_of_int \<bar>k\<bar>" by simp
    then have "(2::int) ^ 53 \<le> \<bar>k\<bar>" by (simp only: of_int_le_iff)
    with assms have "\<bar>k\<bar> = 2 ^ 53" by simp
    then have "\<bar>k\<bar> = 9007199254740992" by simp
    then have "k = 2 * (k div 2)" by presburger
    then have "real_of_int k = real_of_int (2 * (k div 2))" by simp
    then have "real_of_int k / q = of_int (k div 2)"
      unfolding q2 by simp
    then show ?thesis ..
  qed
  then obtain j where j: "real_of_int k / q = of_int j" ..
  have "real_of_int j * q = real_of_int k"
    using j q by (simp add: field_simps)
  then have r: "of_int (py_round (real_of_int k / q)) * q = of_int k"
    unfolding j py_round_of_int .
  have "(2::real) ^ 53 < pow2 1024" by (simp add: pow2_def)
  with kr have small: "\<not> pow2 1024 \<le> \<bar>real_of_int k\<bar>" by linarith
  have "fl (of_int k) =
          (if pow2 1024 \<le> \<bar>of_int (py_round (real_of_int k / q)) * q\<bar>
           then (if 0 < real_of_int k then PInf else NInf)
           else Fin (of_int (py_round (real_of_int k / q)) * q))"
    using False unfolding fl_def Let_def e_def [symmetric] m q_def [symmetric] by simp
  then show ?thesis
    unfolding r using small by simp
qed

section \<open>The per-config savings\<close>

text \<open>The savings of the example configs, and two pairs of figures whose double quotient
  rounds to another integer than the exact quotient does.\<close>

lemma saving_quotient_ex_operational:
  "saving_quotient 1000 796 = Fin (2871044762448691 / 140737488355328)"
  by (simp add: saving_quotient_def) (simp add: fl_eval)

lemma saving_quotient_ex_embodied:
  "saving_quotient 1000 746 = Fin (3574732204225331 / 140737488355328)"
  by (simp add: saving_quotient_def) (simp add: fl_eval)

lemma saving_quotient_ex_carbon:
  "saving_quotient 2000 1542 = Fin (3222888483337011 / 140737488355328)"
  by (simp add: saving_quotient_def) (simp add: fl_eval)

lemma fl_1000: "fl 1000 = Fin 1000"
  by (simp add: fl_eval)

lemma fl_2000: "fl 2000 = Fin 2000"
  by (simp add: fl_eval)

lemma saving_ex:
  "saving 1000 796 = Inr 20" "saving 1000 746 = Inr 25" "saving 2000 1542 = Inr 23"
  by (simp_all add: saving_def fl_1000 fl_2000 saving_quotient_ex_operational
      saving_quotient_ex_embodied saving_quotient_ex_carbon py_round_def Let_def)

lemma fl_2: "fl 2 = Fin 2"
  by (simp add: fl_eval)

lemma fl_85_hundredths: "fl (85 / 100) = Fin (7656119366529843 / 9007199254740992)"
  by (simp add: fl_eval)

lemma saving_quotient_2_085:
  "saving_quotient 2 (85 / 100) = Fin (8092405580431359 / 140737488355328)"
  by (simp add: saving_quotient_def fl_2 fl_85_hundredths) (simp add: fl_eval)

lemma saving_2_085: "saving 2 (85 / 100) = Inr 57"
  unfolding saving_def fl_2 saving_quotient_2_085 by (simp add: py_round_def Let_def)

lemma exact_saving_2_085: "py_round ((2 - 85 / 100) * 100 / 2) = 58"
  by (simp add: py_round_def Let_def)

lemma take_Suc_snoc:
  assumes "take (Suc i) xs = ys @ [y]" and "length ys = i"
  shows "xs ! i = y" and "take i xs = ys"
proof -
  have "xs ! i = take (Suc i) xs ! i" by simp
  then show "xs ! i = y" using assms by (simp add: nth_append)
  have "take i xs = take i (take (Suc i) xs)" by (simp add: min_def)
  then show "take i xs = ys" using assms by simp
qed

lemma nth_of_take: "take i xs = ys \<Longrightarrow> k < i \<Longrightarrow> ys ! k = xs ! k"
  by auto

lemma steps_loop_Inr:
  assumes "steps_loop sc fr tf i cs ai as = Inr (all_info, all_savings)"
    and "length ai = i" and "length as = i"
  shows "length all_info = i + length cs \<and> length all_savings = i + length cs
       \<and> take i all_info = ai \<and> take i all_savings = as
       \<and> (\<forall>j < length cs.
             all_info ! (i + j) = info_dict sc (cs ! j)
           \<and> (\<exists>s. (if 0 < i + j
                    then savings_against (all_info ! (if tf then 0 else i + j - 1))
                           (info_dict sc (cs ! j))
                    else Inr (zero_savings (cs ! j))) = Inr s
                  \<and> all_savings ! (i + j) = blend fr s))"
  using assms
proof (induction cs arbitrary: i ai as)
  case Nil
  then show ?case by simp
next
  case (Cons c cs)
  let ?first = "if 0 < i then
              (if tf then savings_against (ai ! 0) (info_dict sc c)
               else savings_against (ai ! (i - 1)) (info_dict sc c))
            else Inr (zero_savings c)"
  obtain sd where sd: "?first = Inr sd"
    and rest: "steps_loop sc fr tf (Suc i) cs (ai @ [info_dict sc c]) (as @ [blend fr sd])
                 = Inr (all_info, all_savings)"
    using Cons.prems(1) by (cases ?first) simp_all
  have len: "length (ai @ [info_dict sc c]) = Suc i" "length (as @ [blend fr sd]) = Suc i"
    using Cons.prems(2,3) by simp_all
  note ih = Cons.IH [OF rest len]
  have ih_len: "length all_info = Suc i + length cs" "length all_savings = Suc i + length cs"
    using ih by blast+
  have ih_info: "take (Suc i) all_info = ai @ [info_dict sc c]"
    using ih by blast
  have ih_sav: "take (Suc i) all_savings = as @ [blend fr sd]"
    using ih by blast
  have ih_rows: "all_info ! (Suc i + j) = info_dict sc (cs ! j)
           \<and> (\<exists>s. (if 0 < Suc i + j
                    then savings_against (all_info ! (if tf then 0 else Suc i + j - 1))
                           (info_dict sc (cs ! j))
                    else Inr (zero_savings (cs ! j))) = Inr s
                  \<and> all_savings ! (Suc i + j) = blend fr s)" if "j < length cs" for j
    using ih that by blast
  have info_i: "all_info ! i = info_dict sc c" and tk_info: "take i all_info = ai"
    using take_Suc_snoc [OF ih_info Cons.prems(2)] by simp_all
  have sav_i: "all_savings ! i = blend fr sd" and tk_sav: "take i all_savings = as"
    using take_Suc_snoc [OF ih_sav Cons.prems(3)] by simp_all
  have ref: "ai ! k = all_info ! k" if "k < i" for k
    using tk_info that by (rule nth_of_take)
  have first: "(if 0 < i
                then savings_against (all_info ! (if tf then 0 else i - 1)) (info_dict sc c)
                else Inr (zero_savings c)) = Inr sd"
  proof (cases "0 < i")
    case True
    then have "ai ! 0 = all_info ! 0" "ai ! (i - 1) = all_info ! (i - 1)"
      using ref by simp_all
    with sd True show ?thesis by (simp split: if_splits)
  next
    case False
    with sd show ?thesis by simp
  qed
  have "all_info ! (i + j) = info_dict sc ((c # cs) ! j)
           \<and> (\<exists>s. (if 0 < i + j
                    then savings_against (all_info ! (if tf then 0 else i + j - 1))
                           (info_dict sc ((c # cs) ! j))
                    else Inr (zero_savings ((c # cs) ! j))) = Inr s
                  \<and> all_savings ! (i + j) = blend fr s)"
    if j: "j < length (c # cs)" for j
  proof (cases j)
    case 0
    then show ?thesis using info_i sav_i first by (auto split: if_splits)
  next
    case (Suc k)
    then have "k < length cs" using j by simp
    from ih_rows [OF this] show ?thesis using Suc by (cases tf) auto
  qed
  with ih_len tk_info tk_sav show ?case by simp
qed

lemma saving_Inr:
  assumes "saving r v = Inr k"
  shows "\<exists>q. saving_quotient r v = Fin q \<and> k = py_round q"
  using assms by (cases "saving_quotient r v") (auto simp: saving_def split: if_splits)

lemma savings_against_Inr:
  assumes "savings_against r v = Inr s"
  shows "\<exists>qo qe qc.
           saving_quotient (operational r) (operational v) = Fin qo
         \<and> saving_quotient (embodied r) (embodied v) = Fin qe
         \<and> saving_quotient (carbon r) (carbon v) = Fin qc
         \<and> operational s = PyInt (py_round qo)
         \<and> embodied s = PyInt (py_round qe)
         \<and> carbon s = PyInt (py_round qc)"
proof -
  obtain so where so: "saving (operational r) (operational v) = Inr so"
    using assms by (cases "saving (operational r) (operational v)")
      (simp_all add: savings_against_def)
  obtain se where se: "saving (embodied r) (embodied v) = Inr se"
    using assms so by (cases "saving (embodied r) (embodied v)")
      (simp_all add: savings_against_def)
  obtain sc where sc: "saving (carbon r) (carbon v) = Inr sc"
    using assms so se by (cases "saving (carbon r) (carbon v)")
      (simp_all add: savings_against_def)
  have s: "s = \<lparr>config = config v, operational = PyInt so, embodied = PyInt se,
                carbon = PyInt sc\<rparr>"
    using assms by (simp add: savings_against_def so se sc)
  from saving_Inr [OF so] saving_Inr [OF se] saving_Inr [OF sc] show ?thesis
    unfolding s by auto
qed

lemma saving_zero_reference: "saving 0 v = Inl ZeroDivisionError"
  by (simp add: saving_def)

lemma blend_fields:
  "operational (blend fr s) = operational s"
  "embodied (blend fr s) = embodied s"
  "carbon (blend fr s) =
     (case fr of None \<Rightarrow> carbon s
      | Some f \<Rightarrow> PyFloat (num_val (operational s) * f + num_val (embodied s) * (1 - f)))"
  by (simp_all add: blend_def split: option.splits)

lemma calculate_steps_ex:
  "calculate_steps ex_sc ex_configs (Some (1 / 2)) True =
     Inr ([\<lparr>config = ''Baseline'', operational = 1000, embodied = 1000, carbon = 2000\<rparr>,
           \<lparr>config = ''GreenSKU-Full'', operational = 796, embodied = 746, carbon = 1542\<rparr>],
          [\<lparr>config = ''Baseline'', operational = PyInt 0, embodied = PyInt 0,
            carbon = PyFloat 0\<rparr>,
           \<lparr>config = ''GreenSKU-Full'', operational = PyInt 20, embodied = PyInt 25,
            carbon = PyFloat (45 / 2)\<rparr>])"
  by (simp add: calculate_steps_def ex_configs_def ex_sc_def info_dict_def zero_savings_def
      savings_against_def saving_ex blend_def config_name_def)

text \<open>
  Claim C10. When \<open>calculate_steps\<close> returns, there is one savings dictionary per
  config. The entries of the first are zero. For a later config \<open>i\<close> the
  \<open>operational\<close> and \<open>embodied\<close> entries are the integers
  \<open>int(round((ref - v) * 100 / ref, 0))\<close>, where \<open>ref\<close> is the figure of the first
  config when \<open>to_first\<close> is set and of config \<open>i - 1\<close> otherwise, and the quotient is
  the finite double the code computes, every operation rounded. The \<open>carbon\<close> entry is
  the same integer of the carbon figures when \<open>frac\<close> is None, and otherwise
  \<open>frac * operational + (1 - frac) * embodied\<close> of the two rounded integers.
\<close>

theorem C10_calculate_steps:
  assumes "calculate_steps sc configs fr to_first = Inr (all_info, all_savings)"
    and "i < length configs"
  shows "length all_savings = length configs
       \<and> (i = 0 \<longrightarrow>
            num_val (operational (all_savings ! i)) = 0
          \<and> num_val (embodied (all_savings ! i)) = 0
          \<and> num_val (carbon (all_savings ! i)) = 0)
       \<and> (0 < i \<longrightarrow>
            (let ref = sc (configs ! (if to_first then 0 else i - 1));
                 v = sc (configs ! i)
             in \<exists>qo qe qc.
                  fl_div (fl_mul (fl_sub (fl (operational_per_sellable_core ref))
                                         (fl (operational_per_sellable_core v))) (Fin 100))
                         (fl (operational_per_sellable_core ref)) = Fin qo
                \<and> fl_div (fl_mul (fl_sub (fl (embodied_per_sellable_core ref))
                                         (fl (embodied_per_sellable_core v))) (Fin 100))
                         (fl (embodied_per_sellable_core ref)) = Fin qe
                \<and> fl_div (fl_mul (fl_sub (fl (carbon_per_sellable_core ref))
                                         (fl (carbon_per_sellable_core v))) (Fin 100))
                         (fl (carbon_per_sellable_core ref)) = Fin qc
                \<and> operational (all_savings ! i) = PyInt (py_round qo)
                \<and> embodied (all_savings ! i) = PyInt (py_round qe)
                \<and> carbon (all_savings ! i) =
                    (case fr of
                       None \<Rightarrow> PyInt (py_round qc)
                     | Some f \<Rightarrow>
                         PyFloat (f * of_int (py_round qo) + (1 - f) * of_int (py_round qe)))))"
proof -
  have loop: "steps_loop sc fr to_first 0 configs [] [] = Inr (all_info, all_savings)"
    using assms(1) by (simp add: calculate_steps_def)
  note inv = steps_loop_Inr [OF loop list.size(3) list.size(3)]
  have len: "length all_savings = length configs"
    using inv [THEN conjunct2, THEN conjunct1] by simp
  note rows = inv [THEN conjunct2, THEN conjunct2, THEN conjunct2, THEN conjunct2, rule_format]
  have info: "all_info ! j = info_dict sc (configs ! j)" if "j < length configs" for j
    using rows [OF that, THEN conjunct1, unfolded add_0] .
  note rows [OF assms(2), THEN conjunct2, unfolded add_0]
  then obtain s where s: "(if 0 < i
                      then savings_against (all_info ! (if to_first then 0 else i - 1))
                             (info_dict sc (configs ! i))
                      else Inr (zero_savings (configs ! i))) = Inr s"
    and sav: "all_savings ! i = blend fr s"
    by (elim exE conjE)
  have first: "num_val (operational (all_savings ! i)) = 0
          \<and> num_val (embodied (all_savings ! i)) = 0
          \<and> num_val (carbon (all_savings ! i)) = 0" if "i = 0"
    using s sav that by (cases fr) (auto simp: blend_def zero_savings_def)
  have later: "(let ref = sc (configs ! (if to_first then 0 else i - 1));
                 v = sc (configs ! i)
             in \<exists>qo qe qc.
                  fl_div (fl_mul (fl_sub (fl (operational_per_sellable_core ref))
                                         (fl (operational_per_sellable_core v))) (Fin 100))
                         (fl (operational_per_sellable_core ref)) = Fin qo
                \<and> fl_div (fl_mul (fl_sub (fl (embodied_per_sellable_core ref))
                                         (fl (embodied_per_sellable_core v))) (Fin 100))
                         (fl (embodied_per_sellable_core ref)) = Fin qe
                \<and> fl_div (fl_mul (fl_sub (fl (carbon_per_sellable_core ref))
                                         (fl (carbon_per_sellable_core v))) (Fin 100))
                         (fl (carbon_per_sellable_core ref)) = Fin qc
                \<and> operational (all_savings ! i) = PyInt (py_round qo)
                \<and> embodied (all_savings ! i) = PyInt (py_round qe)
                \<and> carbon (all_savings ! i) =
                    (case fr of
                       None \<Rightarrow> PyInt (py_round qc)
                     | Some f \<Rightarrow>
                         PyFloat (f * of_int (py_round qo) + (1 - f) * of_int (py_round qe))))"
    if pos: "0 < i"
  proof -
    let ?k = "if to_first then 0 else i - 1"
    let ?r = "sc (configs ! ?k)" and ?v = "sc (configs ! i)"
    have k: "?k < length configs" using pos assms(2) by auto
    have "savings_against (info_dict sc (configs ! ?k)) (info_dict sc (configs ! i)) = Inr s"
      using s pos info [OF k] by simp
    from savings_against_Inr [OF this] obtain qo qe qc where q:
      "saving_quotient (operational_per_sellable_core ?r) (operational_per_sellable_core ?v)
         = Fin qo"
      "saving_quotient (embodied_per_sellable_core ?r) (embodied_per_sellable_core ?v) = Fin qe"
      "saving_quotient (carbon_per_sellable_core ?r) (carbon_per_sellable_core ?v) = Fin qc"
      and f: "operational s = PyInt (py_round qo)" "embodied s = PyInt (py_round qe)"
        "carbon s = PyInt (py_round qc)"
      unfolding info_dict_def by auto
    have c: "carbon (blend fr s) =
               (case fr of
                  None \<Rightarrow> PyInt (py_round qc)
                | Some f \<Rightarrow>
                    PyFloat (f * of_int (py_round qo) + (1 - f) * of_int (py_round qe)))"
      unfolding blend_fields f by (cases fr) (simp_all add: mult.commute)
    show ?thesis
      unfolding Let_def sav blend_fields(1,2) c f(1,2)
      using q [unfolded saving_quotient_def] by blast
  qed
  show ?thesis
    by (rule conjI [OF len conjI [OF impI [OF first] impI [OF later]]])
qed

text \<open>
  The two example configs with \<open>frac = 0.5\<close>: savings of 20 and 25, blended to 22.5.
\<close>

theorem C10_calculate_steps_witness:
  "(case calculate_steps ex_sc ex_configs (Some (1 / 2)) True of
      Inl e \<Rightarrow> False
    | Inr (all_info, all_savings) \<Rightarrow>
        carbon (all_savings ! 0) = PyFloat 0
      \<and> operational (all_savings ! 1) = PyInt 20
      \<and> embodied (all_savings ! 1) = PyInt 25
      \<and> carbon (all_savings ! 1) = PyFloat (45 / 2))"
  unfolding calculate_steps_ex
  using C10_calculate_steps [OF calculate_steps_ex, of 1]
        C10_calculate_steps [OF calculate_steps_ex, of 0]
  by (simp add: ex_configs_def)

section \<open>The fan-power fit\<close>

text \<open>
  The Gram determinant \<open>n * sum(x * x) - sum(x) * sum(x)\<close> of samples with two
  different server powers is positive, so the least-squares line exists and satisfies
  the two normal equations.
\<close>

lemma sum_sq_dev:
  "sum_list (map (\<lambda>v. (v - m) * (v - m)) xs)
     = sum_list (map (\<lambda>v. v * v) xs) - 2 * m * sum_list xs + real (length xs) * m * (m::real)"
  by (induction xs) (simp_all add: algebra_simps)

lemma sum_sq_dev_nonneg: "0 \<le> sum_list (map (\<lambda>v. (v - m) * (v - (m::real))) xs)"
  by (induction xs) simp_all

lemma sum_sq_dev_pos:
  "\<exists>v \<in> set xs. v \<noteq> m \<Longrightarrow> 0 < sum_list (map (\<lambda>v. (v - m) * (v - (m::real))) xs)"
proof (induction xs)
  case Nil
  then show ?case by simp
next
  case (Cons x xs)
  show ?case
  proof (cases "x = m")
    case True
    with Cons show ?thesis by simp
  next
    case False
    then have "0 < (x - m) * (x - m)" by (auto simp: zero_less_mult_iff)
    with sum_sq_dev_nonneg [of m xs] show ?thesis by simp
  qed
qed

lemma gram_pos:
  assumes "a \<in> set xs" and "b \<in> set xs" and "a \<noteq> (b::real)"
  shows "0 < real (length xs) * sum_list (map (\<lambda>v. v * v) xs) - sum_list xs * sum_list xs"
proof -
  let ?n = "real (length xs)"
  let ?m = "sum_list xs / ?n"
  have n: "0 < ?n" using assms(1) by (cases xs) simp_all
  have "\<exists>v \<in> set xs. v \<noteq> ?m" using assms by metis
  then have "0 < sum_list (map (\<lambda>v. (v - ?m) * (v - ?m)) xs)" by (rule sum_sq_dev_pos)
  then have "0 < sum_list (map (\<lambda>v. v * v) xs) - 2 * ?m * sum_list xs + ?n * ?m * ?m"
    by (simp only: sum_sq_dev)
  then have "0 < ?n * (sum_list (map (\<lambda>v. v * v) xs) - 2 * ?m * sum_list xs + ?n * ?m * ?m)"
    using n by simp
  moreover have "?n * (sum_list (map (\<lambda>v. v * v) xs) - 2 * ?m * sum_list xs + ?n * ?m * ?m)
      = ?n * sum_list (map (\<lambda>v. v * v) xs) - sum_list xs * sum_list xs"
    using n by (simp add: field_simps)
  ultimately show ?thesis by simp
qed

lemma sum_resid:
  "(\<Sum>(x, y)\<leftarrow>df. y - (m * x + c))
     = sum_list (map snd df) - m * sum_list (map fst df) - real (length df) * (c::real)"
  by (induction df) (auto simp: algebra_simps)

lemma sum_xresid:
  "(\<Sum>(x, y)\<leftarrow>df. x * (y - (m * x + c)))
     = sum_list (map2 (*) (map fst df) (map snd df))
       - m * sum_list (map (\<lambda>v. v * v) (map fst df)) - (c::real) * sum_list (map fst df)"
  by (induction df) (auto simp: algebra_simps)

lemma np_polyfit1_full_rank:
  assumes "a \<in> set x" and "b \<in> set x" and "a \<noteq> b" and "length x = length y"
  shows "np_polyfit1 x y =
     (let n = real (length x);
             sx = sum_list x;
             sy = sum_list y;
             sxx = sum_list (map (\<lambda>v. v * v) x);
             sxy = sum_list (map2 (*) x y);
             slope = (n * sxy - sx * sy) / (n * sxx - sx * sx)
         in Fitted slope ((sy - slope * sx) / n))"
proof -
  have a1: "x \<noteq> []" using assms(1) by auto
  have a2: "\<not> (\<forall>v \<in> set x. v = 0)" using assms(1-3) by metis
  have a3: "\<not> (\<forall>v \<in> set x. v = hd x)" using assms(1-3) by metis
  show ?thesis
    unfolding np_polyfit1_def by (simp only: a1 a2 a3 assms(4) if_False simp_thms)
qed

lemma normal_equations:
  fixes n sx sy sxx sxy :: real
  assumes "0 < n" and "0 < n * sxx - sx * sx"
  shows "sy - (n * sxy - sx * sy) / (n * sxx - sx * sx) * sx
           - n * ((sy - (n * sxy - sx * sy) / (n * sxx - sx * sx) * sx) / n) = 0"
    and "sxy - (n * sxy - sx * sy) / (n * sxx - sx * sx) * sxx
           - (sy - (n * sxy - sx * sy) / (n * sxx - sx * sx) * sx) / n * sx = 0"
proof -
  define m where "m = (n * sxy - sx * sy) / (n * sxx - sx * sx)"
  define c where "c = (sy - m * sx) / n"
  have nc: "n * c = sy - m * sx" using assms(1) by (simp add: c_def)
  have mD: "m * (n * sxx - sx * sx) = n * sxy - sx * sy" using assms(2) by (simp add: m_def)
  show "sy - (n * sxy - sx * sy) / (n * sxx - sx * sx) * sx
           - n * ((sy - (n * sxy - sx * sy) / (n * sxx - sx * sx) * sx) / n) = 0"
    using assms(1) by simp
  have "n * (sxy - m * sxx - c * sx) = n * sxy - m * (n * sxx) - (n * c) * sx"
    by (simp add: algebra_simps)
  also have "\<dots> = (n * sxy - sx * sy) - m * (n * sxx - sx * sx)"
    unfolding nc by (simp add: algebra_simps)
  also have "\<dots> = 0" unfolding mD by simp
  finally have "sxy - m * sxx - c * sx = 0" using assms(1) by simp
  then show "sxy - (n * sxy - sx * sy) / (n * sxx - sx * sx) * sxx
           - (sy - (n * sxy - sx * sy) / (n * sxx - sx * sx) * sx) / n * sx = 0"
    by (simp only: m_def c_def)
qed

lemma least_squares_normal_equations:
  assumes "a \<in> set df" and "b \<in> set df" and "fst a \<noteq> fst b"
  shows "\<exists>m c. get_fan_power_model df False = Fitted m c
           \<and> (\<Sum>(x, y)\<leftarrow>df. y - (m * x + c)) = 0
           \<and> (\<Sum>(x, y)\<leftarrow>df. x * (y - (m * x + c))) = 0"
proof -
  let ?x = "map fst df" and ?y = "map snd df"
  let ?n = "real (length df)"
  let ?sx = "sum_list ?x" and ?sy = "sum_list ?y"
  let ?sxx = "sum_list (map (\<lambda>v. v * v) ?x)" and ?sxy = "sum_list (map2 (*) ?x ?y)"
  let ?D = "?n * ?sxx - ?sx * ?sx"
  let ?m = "(?n * ?sxy - ?sx * ?sy) / ?D"
  let ?c = "(?sy - ?m * ?sx) / ?n"
  have ina: "fst a \<in> set ?x" and inb: "fst b \<in> set ?x" using assms(1,2) by simp_all
  have D: "0 < ?D" using gram_pos [OF ina inb assms(3)] by simp
  have n: "0 < ?n" using assms(1) by (cases df) simp_all
  have fit: "get_fan_power_model df False = Fitted ?m ?c"
    using np_polyfit1_full_rank [OF ina inb assms(3), of ?y]
    by (simp add: get_fan_power_model_def Let_def)
  note eqs = normal_equations [OF n D, where sy = ?sy and sxy = ?sxy]
  show ?thesis
  proof (intro exI conjI)
    show "get_fan_power_model df False = Fitted ?m ?c" by (rule fit)
    show "(\<Sum>(x, y)\<leftarrow>df. y - (?m * x + ?c)) = 0"
      unfolding sum_resid by (rule eqs(1))
    show "(\<Sum>(x, y)\<leftarrow>df. x * (y - (?m * x + ?c))) = 0"
      unfolding sum_xresid by (rule eqs(2))
  qed
qed

lemma two_points: "get_fan_power_model [(100, 10), (200, 30)] False = Fitted (1 / 5) (- 10)"
  by (simp add: get_fan_power_model_def np_polyfit1_def Let_def)

text \<open>
  A single sample, server power 100 and fan power 10: \<open>get_fan_power_model\<close> returns
  the slope 0.05 and the intercept 5; nothing is raised. (Claim C8 as stated, refuted at
  this input.)
\<close>

theorem C8_one_sample_counterexample:
  "get_fan_power_model [(100, 10)] False = Fitted (1 / 20) 5"
  by (simp add: get_fan_power_model_def np_polyfit1_def Let_def)

text \<open>
  Claim C8, amended. With no sample \<open>get_fan_power_model\<close> fails with the TypeError of
  \<open>np.polyfit\<close>. With one sample \<open>(x, y)\<close>, \<open>x\<close> not zero, it does not fail: it
  returns the degenerate fit of slope \<open>y / (2 * x)\<close> and intercept \<open>y / 2\<close>. With
  samples of at least two different server powers it returns the least-squares line:
  the residuals sum to zero and are orthogonal to the server powers.
\<close>

theorem C8_fan_power_fit:
  "get_fan_power_model [] normalized = Raised TypeError
   \<and> (x \<noteq> 0 \<longrightarrow> get_fan_power_model [(x, y)] False = Fitted (y / (2 * x)) (y / 2))
   \<and> ((\<exists>a \<in> set df. \<exists>b \<in> set df. fst a \<noteq> fst b) \<longrightarrow>
        (\<exists>m c. get_fan_power_model df False = Fitted m c
           \<and> (\<Sum>(x, y)\<leftarrow>df. y - (m * x + c)) = 0
           \<and> (\<Sum>(x, y)\<leftarrow>df. x * (y - (m * x + c))) = 0))"
proof (intro conjI impI)
  show "get_fan_power_model [] normalized = Raised TypeError"
    by (simp add: get_fan_power_model_def np_polyfit1_def)
  show "get_fan_power_model [(x, y)] False = Fitted (y / (2 * x)) (y / 2)" if "x \<noteq> 0"
    using that by (simp add: get_fan_power_model_def np_polyfit1_def Let_def)
  show "\<exists>m c. get_fan_power_model df False = Fitted m c
           \<and> (\<Sum>(x, y)\<leftarrow>df. y - (m * x + c)) = 0
           \<and> (\<Sum>(x, y)\<leftarrow>df. x * (y - (m * x + c))) = 0"
    if "\<exists>a \<in> set df. \<exists>b \<in> set df. fst a \<noteq> fst b"
    using that least_squares_normal_equations by blast
qed

theorem C8_fan_power_fit_witness:
  "(200::real) \<noteq> 0
   \<and> get_fan_power_model [(200, 30)] False = Fitted (3 / 40) 15
   \<and> (\<Sum>(x, y)\<leftarrow>[(100, 10), (200, 30)]. y - (1 / 5 * x + - 10)) = (0::real)
   \<and> (\<Sum>(x, y)\<leftarrow>[(100, 10), (200, 30)]. x * (y - (1 / 5 * x + - 10))) = (0::real)"
proof -
  note t = C8_fan_power_fit [of True 200 30 "[(100, 10), (200, 30)]"]
  have one: "get_fan_power_model [(200, 30)] False = Fitted (3 / 40) 15"
    using t by simp
  have "(100::real, 10::real) \<in> set [(100, 10), (200, 30)]"
    and "(200::real, 30::real) \<in> set [(100, 10), (200, 30)]"
    and "fst (100::real, 10::real) \<noteq> fst (200::real, 30::real)"
    by simp_all
  then have "\<exists>a \<in> set [(100::real, 10::real), (200, 30)].
               \<exists>b \<in> set [(100::real, 10::real), (200, 30)]. fst a \<noteq> fst b"
    by blast
  with t obtain m c where
    "get_fan_power_model [(100, 10), (200, 30)] False = Fitted m c"
    "(\<Sum>(x, y)\<leftarrow>[(100, 10), (200, 30)]. y - (m * x + c)) = 0"
    "(\<Sum>(x, y)\<leftarrow>[(100, 10), (200, 30)]. x * (y - (m * x + c))) = 0"
    by blast
  then show ?thesis using one by (simp add: two_points)
qed

end
